theory Spec2Isabelle
  imports Main "HOL-Library.List_Lexorder" "HOL-Library.Char_ord"
begin

section \<open>The relational store\<close>

text \<open>
  Every Django model is a table: the list of its rows in insertion order (the order of
  the primary keys) together with the next value of its primary-key sequence. A primary
  key, once handed out, is never handed out again, also after the row is deleted.
\<close>

type_synonym pk = nat

record 'r table =
  rows :: "'r list"
  next_pk :: pk

definition insert_row :: "(pk \<Rightarrow> 'r) \<Rightarrow> 'r table \<Rightarrow> 'r \<times> 'r table" where
  "insert_row mk t =
     (mk (next_pk t), \<lparr>rows = rows t @ [mk (next_pk t)], next_pk = Suc (next_pk t)\<rparr>)"

definition delete_rows :: "('r \<Rightarrow> bool) \<Rightarrow> 'r table \<Rightarrow> 'r table" where
  "delete_rows P t = t\<lparr>rows := filter (\<lambda>r. \<not> P r) (rows t)\<rparr>"

definition update_rows :: "('r \<Rightarrow> bool) \<Rightarrow> ('r \<Rightarrow> 'r) \<Rightarrow> 'r table \<Rightarrow> 'r table" where
  "update_rows P f t = t\<lparr>rows := map (\<lambda>r. if P r then f r else r) (rows t)\<rparr>"

subsection \<open>Catalog rows\<close>

record shop =
  shop_id :: pk
  shop_owner :: pk
  shop_name :: string
  shop_email :: string
  shop_base_shipping_price :: int
  shop_is_open :: bool

record category =
  category_id :: pk
  category_name :: string

record shop_category =
  sc_id :: pk
  sc_shop :: pk
  sc_category :: pk
  sc_external_id :: int

record product =
  product_id :: pk
  product_name :: string

record product_info =
  pi_id :: pk
  pi_shop :: pk
  pi_category :: pk
  pi_product :: pk
  pi_external_id :: int
  pi_quantity :: int
  pi_price :: int
  pi_price_rrc :: int

record parameter =
  parameter_id :: pk
  parameter_name :: string

record value_of_parameter =
  value_id :: pk
  value_value :: string

record product_parameter =
  pp_id :: pk
  pp_product_info :: pk
  pp_parameter :: pk
  pp_value :: pk

subsection \<open>Order rows\<close>

text \<open>
  Modelled from the spec: the state enumerations (app\_choices) are absent from the
  sources; section 3 names the states \<open>basket\<close>, \<open>accepted\<close> of a BuyerOrder and
  \<open>basket\<close>, \<open>new\<close>, \<open>canceled\<close>, \<open>delivered\<close> of a SellerOrder.
\<close>

datatype BuyerOrderState = BO_basket | BO_accepted

datatype SellerOrderState = SO_basket | SO_new | SO_canceled | SO_delivered

record contact =
  contact_id :: pk
  contact_user :: pk
  contact_is_deleted :: bool

record buyer_order =
  bo_id :: pk
  bo_user :: pk
  bo_state :: BuyerOrderState
  bo_contact :: "pk option"
  bo_created_at :: "nat option"

record seller_order =
  so_id :: pk
  so_buyer_order :: pk
  so_shop :: pk
  so_state :: SellerOrderState
  so_shipping_price :: int
  so_contact :: "pk option"
  so_created_at :: "nat option"

record seller_order_item =
  item_id :: pk
  item_order :: pk
  item_product_info :: pk
  item_quantity :: int
  item_purchase_price :: int
  item_purchase_price_rrc :: int

subsection \<open>The database\<close>

record db =
  shops :: "shop table"
  categories :: "category table"
  shop_categories :: "shop_category table"
  products :: "product table"
  product_infos :: "product_info table"
  parameters :: "parameter table"
  parameter_values :: "value_of_parameter table"
  product_parameters :: "product_parameter table"
  contacts :: "contact table"
  buyer_orders :: "buyer_order table"
  seller_orders :: "seller_order table"
  seller_order_items :: "seller_order_item table"

datatype exn =
  IntegrityError
  | DoesNotExist
  | KeyError
  | ValidationError string

section \<open>Catalog import: the decoded payload\<close>

text \<open>
  The payload is the structure decoded from the uploaded YAML file. A key that may be
  missing is an optional field; identifiers, prices and quantities are integers, names
  are strings, and the \<open>parameters\<close> dictionary of a good is the list of its items in
  the dictionary's order.
\<close>

record category_source =
  cs_id :: "int option"
  cs_name :: "string option"

record product_source =
  ps_id :: "int option"
  ps_category :: "int option"
  ps_name :: "string option"
  ps_parameters :: "(string \<times> string) list option"
  ps_price :: "int option"
  ps_price_rrc :: "int option"
  ps_quantity :: "int option"

record json_data =
  jd_shop :: "string option"
  jd_categories :: "category_source list option"
  jd_goods :: "product_source list option"
  jd_email :: "string option"
  jd_shipping_price :: "int option"

record category_data =
  cd_name :: string
  cd_external_id :: int

text \<open>The payload of one listing, as \<open>import_products\<close> builds it for the serializer.\<close>

record product_data =
  pd_external_id :: int
  pd_category :: category_data
  pd_product_name :: string
  pd_product_parameters :: "(string \<times> string) list"
  pd_price :: int
  pd_price_rrc :: int
  pd_quantity :: int

datatype key = KeyName string | KeyInt int

datatype import_result =
  ParseError string
  | ShopNameOccupied string
  | CategoryMatchError key "category_source list" product_source
  | ProductParseError string "category_source list" product_source
  | InvalidProductInfo product_source "string list"
  | StatusOk pk
  | Raised exn

section \<open>Validation of a listing payload (PartnerProductInfoSerializer)\<close>

text \<open>
  \<open>str.strip()\<close> on the whitespace characters of ASCII; a \<open>CharField\<close> trims its
  input, rejects the blank string and then checks \<open>max_length\<close>.
\<close>

definition is_space :: "char \<Rightarrow> bool" where
  "is_space c \<longleftrightarrow> c \<in> set [CHR '' '', CHR 0x09, CHR 0x0A, CHR 0x0B, CHR 0x0C, CHR 0x0D,
                              CHR 0x1C, CHR 0x1D, CHR 0x1E, CHR 0x1F]"

definition strip :: "string \<Rightarrow> string" where
  "strip s = rev (dropWhile is_space (rev (dropWhile is_space s)))"

definition CharField :: "nat option \<Rightarrow> string \<Rightarrow> string option" where
  "CharField max_length s =
     (let v = strip s in
      if v = [] then None
      else (case max_length of
              None \<Rightarrow> Some v
            | Some n \<Rightarrow> if n < length v then None else Some v))"

definition IntegerField :: "int option \<Rightarrow> int \<Rightarrow> int option" where
  "IntegerField min_value v =
     (case min_value of None \<Rightarrow> Some v | Some m \<Rightarrow> if v < m then None else Some v)"

text \<open>
  Modelled from the spec: the declaration of the ProductInfo model is absent from the
  sources, so the bounds of its integer columns are those of section 4.1 step 5: price,
  price\_rrc and quantity are non-negative. The spec gives no bound for the listing's own
  external\_id.
\<close>

definition PositiveIntegerField :: "int \<Rightarrow> int option" where
  "PositiveIntegerField v = IntegerField (Some 0) v"

definition ExternalIdField :: "int \<Rightarrow> int option" where
  "ExternalIdField v = IntegerField None v"

text \<open>PartnerCategorySerializer: name of at most 50 characters, external\_id at least 1.\<close>

definition PartnerCategorySerializer :: "category_data \<Rightarrow> category_data option" where
  "PartnerCategorySerializer c =
     Option.bind (CharField (Some 50) (cd_name c)) (\<lambda>n.
     Option.bind (IntegerField (Some 1) (cd_external_id c)) (\<lambda>e.
     Some \<lparr>cd_name = n, cd_external_id = e\<rparr>))"

definition ProductParameterSerializer :: "string \<times> string \<Rightarrow> (string \<times> string) option" where
  "ProductParameterSerializer p =
     Option.bind (CharField None (fst p)) (\<lambda>k.
     Option.bind (CharField None (snd p)) (\<lambda>v. Some (k, v)))"

fun many :: "('a \<Rightarrow> 'b option) \<Rightarrow> 'a list \<Rightarrow> 'b list option" where
  "many f [] = Some []"
| "many f (x # xs) =
     (case f x of
        None \<Rightarrow> None
      | Some y \<Rightarrow> (case many f xs of None \<Rightarrow> None | Some ys \<Rightarrow> Some (y # ys)))"

text \<open>
  The context of a serializer: empty when \<open>import_products\<close> instantiates it, and
  holding the request (here: the authenticated user) when a view does.
\<close>

datatype serializer_context = NoContext | RequestContext pk

definition is_importing :: "serializer_context \<Rightarrow> bool" where
  "is_importing ctx = (case ctx of NoContext \<Rightarrow> True | RequestContext u \<Rightarrow> False)"

definition users_shop :: "db \<Rightarrow> pk \<Rightarrow> shop option" where
  "users_shop d u = find (\<lambda>s. shop_owner s = u) (rows (shops d))"

definition shop_has_external_id :: "db \<Rightarrow> pk \<Rightarrow> int \<Rightarrow> bool" where
  "shop_has_external_id d s e \<longleftrightarrow>
     (\<exists>p \<in> set (rows (product_infos d)). pi_shop p = s \<and> pi_external_id p = e)"

text \<open>
  \<open>validate_external_id\<close>: outside an import, an external\_id already present in the
  user's shop is refused. The result is \<open>None\<close> when the value is refused. A request
  user without a shop (excluded by the IsPartner permission of the view) has no listing
  that could clash.
\<close>

definition validate_external_id :: "db \<Rightarrow> serializer_context \<Rightarrow> int \<Rightarrow> int option" where
  "validate_external_id d ctx v =
     (case ctx of
        NoContext \<Rightarrow> Some v
      | RequestContext u \<Rightarrow>
          (case users_shop d u of
             None \<Rightarrow> Some v
           | Some s \<Rightarrow> if shop_has_external_id d (shop_id s) v then None else Some v))"

text \<open>The fields in declaration order; each yields its validated value or fails.\<close>

definition field_external_id :: "db \<Rightarrow> serializer_context \<Rightarrow> product_data \<Rightarrow> int option" where
  "field_external_id d ctx pd =
     Option.bind (ExternalIdField (pd_external_id pd)) (validate_external_id d ctx)"

definition field_errors :: "db \<Rightarrow> serializer_context \<Rightarrow> product_data \<Rightarrow> string list" where
  "field_errors d ctx pd =
     (if field_external_id d ctx pd = None then [''external_id''] else []) @
     (if PartnerCategorySerializer (pd_category pd) = None then [''category''] else []) @
     (if CharField None (pd_product_name pd) = None then [''product''] else []) @
     (if many ProductParameterSerializer (pd_product_parameters pd) = None
      then [''product_parameters''] else []) @
     (if PositiveIntegerField (pd_quantity pd) = None then [''quantity''] else []) @
     (if PositiveIntegerField (pd_price pd) = None then [''price''] else []) @
     (if PositiveIntegerField (pd_price_rrc pd) = None then [''price_rrc''] else [])"

definition validated_data :: "db \<Rightarrow> serializer_context \<Rightarrow> product_data \<Rightarrow> product_data option" where
  "validated_data d ctx pd =
     Option.bind (field_external_id d ctx pd) (\<lambda>e.
     Option.bind (PartnerCategorySerializer (pd_category pd)) (\<lambda>c.
     Option.bind (CharField None (pd_product_name pd)) (\<lambda>n.
     Option.bind (many ProductParameterSerializer (pd_product_parameters pd)) (\<lambda>ps.
     Option.bind (PositiveIntegerField (pd_quantity pd)) (\<lambda>q.
     Option.bind (PositiveIntegerField (pd_price pd)) (\<lambda>p.
     Option.bind (PositiveIntegerField (pd_price_rrc pd)) (\<lambda>r.
     Some \<lparr>pd_external_id = e, pd_category = c, pd_product_name = n,
           pd_product_parameters = ps, pd_price = p, pd_price_rrc = r,
           pd_quantity = q\<rparr>)))))))"

text \<open>
  \<open>is_valid(raise_exception=True)\<close>: the validated data, or the ValidationError whose
  detail names the refused fields.
\<close>

definition is_valid :: "db \<Rightarrow> serializer_context \<Rightarrow> product_data \<Rightarrow> string list + product_data" where
  "is_valid d ctx pd =
     (case validated_data d ctx pd of
        Some vd \<Rightarrow> Inr vd
      | None \<Rightarrow> Inl (field_errors d ctx pd))"

section \<open>Catalog import: writing the store\<close>

text \<open>
  \<open>get_or_create\<close> of a manager: the first row that matches the lookup, or a new row.
\<close>

definition get_or_create :: "('r \<Rightarrow> bool) \<Rightarrow> (pk \<Rightarrow> 'r) \<Rightarrow> 'r table \<Rightarrow> 'r \<times> 'r table" where
  "get_or_create P mk t =
     (case find P (rows t) of
        Some r \<Rightarrow> (r, t)
      | None \<Rightarrow> insert_row mk t)"

text \<open>
  Modelled from the spec: the Shop model's declaration is absent. Section 3 gives one
  shop per owner and lists the \<open>is_open\<close> flag without its default (a created shop is
  taken to be open); section 4.1 step 2 makes the shop name unique, which is the
  IntegrityError that \<open>import_products\<close> catches.
\<close>

definition Shop_get_or_create ::
  "db \<Rightarrow> pk \<Rightarrow> string \<Rightarrow> string \<Rightarrow> int \<Rightarrow> exn + (shop \<times> bool \<times> db)" where
  "Shop_get_or_create d owner_id name email base_shipping_price =
     (case find (\<lambda>s. shop_owner s = owner_id) (rows (shops d)) of
        Some s \<Rightarrow> Inr (s, False, d)
      | None \<Rightarrow>
          if \<exists>s \<in> set (rows (shops d)). shop_name s = name then Inl IntegrityError
          else (let (s, t) = insert_row (\<lambda>i. \<lparr>shop_id = i, shop_owner = owner_id,
                                shop_name = name, shop_email = email,
                                shop_base_shipping_price = base_shipping_price,
                                shop_is_open = True\<rparr>) (shops d)
                in Inr (s, True, d\<lparr>shops := t\<rparr>)))"

definition Category_get_or_create :: "db \<Rightarrow> string \<Rightarrow> category \<times> db" where
  "Category_get_or_create d name =
     (let (c, t) = get_or_create (\<lambda>c. category_name c = name)
                     (\<lambda>i. \<lparr>category_id = i, category_name = name\<rparr>) (categories d)
      in (c, d\<lparr>categories := t\<rparr>))"

definition Product_get_or_create :: "db \<Rightarrow> string \<Rightarrow> product \<times> db" where
  "Product_get_or_create d name =
     (let (p, t) = get_or_create (\<lambda>p. product_name p = name)
                     (\<lambda>i. \<lparr>product_id = i, product_name = name\<rparr>) (products d)
      in (p, d\<lparr>products := t\<rparr>))"

definition Parameter_get_or_create :: "db \<Rightarrow> string \<Rightarrow> parameter \<times> db" where
  "Parameter_get_or_create d name =
     (let (p, t) = get_or_create (\<lambda>p. parameter_name p = name)
                     (\<lambda>i. \<lparr>parameter_id = i, parameter_name = name\<rparr>) (parameters d)
      in (p, d\<lparr>parameters := t\<rparr>))"

definition ValueOfParameter_get_or_create :: "db \<Rightarrow> string \<Rightarrow> value_of_parameter \<times> db" where
  "ValueOfParameter_get_or_create d v =
     (let (p, t) = get_or_create (\<lambda>p. value_value p = v)
                     (\<lambda>i. \<lparr>value_id = i, value_value = v\<rparr>) (parameter_values d)
      in (p, d\<lparr>parameter_values := t\<rparr>))"

text \<open>
  Modelled from the spec: the ShopCategory model's declaration is absent; by section 3
  its \<open>external_id\<close> is unique per shop, which is the IntegrityError that \<open>create\<close>
  turns into a ValidationError.
\<close>

definition ShopCategory_get_or_create ::
  "db \<Rightarrow> shop \<Rightarrow> category \<Rightarrow> int \<Rightarrow> exn + (shop_category \<times> db)" where
  "ShopCategory_get_or_create d shop category_object external_id =
     (case find (\<lambda>sc. sc_shop sc = shop_id shop \<and> sc_category sc = category_id category_object)
                (rows (shop_categories d)) of
        Some sc \<Rightarrow> Inr (sc, d)
      | None \<Rightarrow>
          if \<exists>sc \<in> set (rows (shop_categories d)).
               sc_shop sc = shop_id shop \<and> sc_external_id sc = external_id
          then Inl IntegrityError
          else (let (sc, t) = insert_row (\<lambda>i. \<lparr>sc_id = i, sc_shop = shop_id shop,
                                 sc_category = category_id category_object,
                                 sc_external_id = external_id\<rparr>) (shop_categories d)
                in Inr (sc, d\<lparr>shop_categories := t\<rparr>)))"

text \<open>
  Modelled from the spec: the ProductInfo model's declaration is absent; by section 3 a
  listing's \<open>external_id\<close> is unique within its shop, so inserting a second row with the
  same shop and external\_id raises IntegrityError.
\<close>

definition ProductInfo_create ::
  "db \<Rightarrow> product \<Rightarrow> shop \<Rightarrow> shop_category \<Rightarrow> product_data \<Rightarrow> exn + (product_info \<times> db)" where
  "ProductInfo_create d product_object shop shop_category vd =
     (if shop_has_external_id d (shop_id shop) (pd_external_id vd) then Inl IntegrityError
      else (let (p, t) = insert_row (\<lambda>i. \<lparr>pi_id = i, pi_shop = shop_id shop,
                               pi_category = sc_id shop_category,
                               pi_product = product_id product_object,
                               pi_external_id = pd_external_id vd,
                               pi_quantity = pd_quantity vd,
                               pi_price = pd_price vd,
                               pi_price_rrc = pd_price_rrc vd\<rparr>) (product_infos d)
            in Inr (p, d\<lparr>product_infos := t\<rparr>)))"

text \<open>
  \<open>add_parameters\<close>: the loop body gets or creates the global Parameter and
  ValueOfParameter rows and inserts the ProductParameter row that joins them to the
  listing. (The \<open>except\<close> clause of the source guards column constraints declared in the
  absent model file; no row built here violates a constraint stated in the spec.)
\<close>

fun add_parameters_loop :: "db \<Rightarrow> pk \<Rightarrow> (string \<times> string) list \<Rightarrow> db" where
  "add_parameters_loop d product_info_id [] = d"
| "add_parameters_loop d product_info_id (parameter_dict # rest) =
     (let (parameter, d1) = Parameter_get_or_create d (fst parameter_dict);
          (val, d2) = ValueOfParameter_get_or_create d1 (snd parameter_dict);
          (pp, t) = insert_row (\<lambda>i. \<lparr>pp_id = i, pp_product_info = product_info_id,
                                  pp_parameter = parameter_id parameter,
                                  pp_value = value_id val\<rparr>) (product_parameters d2)
      in add_parameters_loop (d2\<lparr>product_parameters := t\<rparr>) product_info_id rest)"

definition add_parameters :: "db \<Rightarrow> product_info \<Rightarrow> (string \<times> string) list \<Rightarrow> bool \<Rightarrow> db" where
  "add_parameters d product_info product_parameters_new replace_old =
     add_parameters_loop
       (if replace_old
        then d\<lparr>product_parameters :=
                 delete_rows (\<lambda>r. pp_product_info r = pi_id product_info) (product_parameters d)\<rparr>
        else d)
       (pi_id product_info) product_parameters_new"

text \<open>
  The fields an update carries (the dictionary \<open>fields_to_update\<close>): a field that is not
  in the dictionary is \<open>None\<close>.
\<close>

record fields_to_update =
  fu_quantity :: "int option"
  fu_price :: "int option"
  fu_price_rrc :: "int option"
  fu_product_parameters :: "(string \<times> string) list option"

definition no_fields :: fields_to_update where
  "no_fields = \<lparr>fu_quantity = None, fu_price = None, fu_price_rrc = None,
                fu_product_parameters = None\<rparr>"

text \<open>
  \<open>PartnerProductInfoUpdateSerializer.update\<close>: the parameters, when given, replace the
  old ones; the remaining fields are set on the instance, which is saved under its
  primary key.
\<close>

definition serializer_update :: "db \<Rightarrow> product_info \<Rightarrow> fields_to_update \<Rightarrow> product_info \<times> db" where
  "serializer_update d instance fu =
     (let d1 = (case fu_product_parameters fu of
                  None \<Rightarrow> d
                | Some ps \<Rightarrow> add_parameters d instance ps True);
          instance' = instance\<lparr>
            pi_quantity := (case fu_quantity fu of None \<Rightarrow> pi_quantity instance | Some q \<Rightarrow> q),
            pi_price := (case fu_price fu of None \<Rightarrow> pi_price instance | Some p \<Rightarrow> p),
            pi_price_rrc := (case fu_price_rrc fu of None \<Rightarrow> pi_price_rrc instance | Some p \<Rightarrow> p)\<rparr>
      in (instance', d1\<lparr>product_infos :=
                          update_rows (\<lambda>r. pi_id r = pi_id instance) (\<lambda>r. instance')
                            (product_infos d1)\<rparr>))"

text \<open>\<open>PartnerProductInfoSerializer.create\<close>; an exception leaves the rows written so far.\<close>

definition serializer_create :: "db \<Rightarrow> shop \<Rightarrow> product_data \<Rightarrow> (exn + product_info) \<times> db" where
  "serializer_create d shop vd =
     (let (category_object, d1) = Category_get_or_create d (cd_name (pd_category vd)) in
      case ShopCategory_get_or_create d1 shop category_object (cd_external_id (pd_category vd)) of
        Inl e \<Rightarrow> (Inl (ValidationError ''category_external_id''), d1)
      | Inr (shop_category, d2) \<Rightarrow>
          (let (product_object, d3) = Product_get_or_create d2 (pd_product_name vd) in
           case ProductInfo_create d3 product_object shop shop_category vd of
             Inl e \<Rightarrow> (Inl e, d3)
           | Inr (product_info, d4) \<Rightarrow>
               (Inr product_info,
                add_parameters d4 product_info (pd_product_parameters vd) False)))"

text \<open>
  The representation of a listing's parameters by PartnerProductInfoBriefSerializer:
  the pairs of the names of the Parameter and ValueOfParameter rows its
  ProductParameter rows refer to.

  Modelled from the spec: the \<open>__str__\<close> methods of Parameter and ValueOfParameter are
  in the absent model file; by section 3 these are name and value pools, so the fields
  render as the name and the value.
\<close>

definition str_parameter :: "db \<Rightarrow> pk \<Rightarrow> string option" where
  "str_parameter d i =
     map_option parameter_name (find (\<lambda>r. parameter_id r = i) (rows (parameters d)))"

definition str_value :: "db \<Rightarrow> pk \<Rightarrow> string option" where
  "str_value d i =
     map_option value_value (find (\<lambda>r. value_id r = i) (rows (parameter_values d)))"

definition instance_parameters :: "db \<Rightarrow> product_info \<Rightarrow> product_parameter list" where
  "instance_parameters d instance =
     filter (\<lambda>r. pp_product_info r = pi_id instance) (rows (product_parameters d))"

definition brief_parameters :: "db \<Rightarrow> product_info \<Rightarrow> (string \<times> string) list option" where
  "brief_parameters d instance =
     many (\<lambda>r. Option.bind (str_parameter d (pp_parameter r)) (\<lambda>k.
                Option.bind (str_value d (pp_value r)) (\<lambda>v. Some (k, v))))
          (instance_parameters d instance)"

definition shop_instance :: "db \<Rightarrow> shop \<Rightarrow> int \<Rightarrow> product_info option" where
  "shop_instance d shop external_id =
     find (\<lambda>p. pi_shop p = shop_id shop \<and> pi_external_id p = external_id)
          (rows (product_infos d))"

definition changed_fields ::
  "product_info \<Rightarrow> (string \<times> string) list \<Rightarrow> product_data \<Rightarrow> fields_to_update" where
  "changed_fields instance product_parameters_old vd =
     \<lparr>fu_quantity = (if pi_quantity instance \<noteq> pd_quantity vd
                     then Some (pd_quantity vd) else None),
      fu_price = (if pi_price instance \<noteq> pd_price vd then Some (pd_price vd) else None),
      fu_price_rrc = (if pi_price_rrc instance \<noteq> pd_price_rrc vd
                      then Some (pd_price_rrc vd) else None),
      fu_product_parameters =
        (if sort_key fst product_parameters_old \<noteq> sort_key fst (pd_product_parameters vd)
         then Some (pd_product_parameters vd) else None)\<rparr>"

text \<open>
  \<open>PartnerProductInfoSerializer.update_or_create\<close>. Python's \<open>sort\<close> and \<open>sorted\<close> are
  stable, as \<open>sort_key\<close> is.
\<close>

definition update_or_create :: "db \<Rightarrow> shop \<Rightarrow> product_data \<Rightarrow> (exn + product_info) \<times> db" where
  "update_or_create d shop vd =
     (case shop_instance d shop (pd_external_id vd) of
        Some instance \<Rightarrow>
          (case brief_parameters d instance of
             None \<Rightarrow> (Inl DoesNotExist, d)
           | Some product_parameters_old \<Rightarrow>
               (let fu = changed_fields instance product_parameters_old vd in
                if fu \<noteq> no_fields
                then (let (i, d') = serializer_update d instance fu in (Inr i, d'))
                else (Inr instance, d)))
      | None \<Rightarrow> serializer_create d shop vd)"

section \<open>Catalog import: \<open>import_products\<close>\<close>

fun build_categories ::
  "category_source list \<Rightarrow> (int \<rightharpoonup> category_data) \<Rightarrow> string + (int \<rightharpoonup> category_data)" where
  "build_categories [] m = Inr m"
| "build_categories (c # cs) m =
     (case cs_id c of
        None \<Rightarrow> Inl ''id''
      | Some i \<Rightarrow>
          (case cs_name c of
             None \<Rightarrow> Inl ''name''
           | Some n \<Rightarrow> build_categories cs (m(i \<mapsto> \<lparr>cd_name = n, cd_external_id = i\<rparr>))))"

text \<open>The first \<open>try\<close> block: the required top-level keys, in the order they are read.\<close>

definition parse_json_data ::
  "json_data \<Rightarrow>
   string + (string \<times> category_source list \<times> (int \<rightharpoonup> category_data) \<times> product_source list)" where
  "parse_json_data jd =
     (case jd_shop jd of
        None \<Rightarrow> Inl ''shop''
      | Some shop_name' \<Rightarrow>
          (case jd_categories jd of
             None \<Rightarrow> Inl ''categories''
           | Some categories_source \<Rightarrow>
               (case build_categories categories_source Map.empty of
                  Inl k \<Rightarrow> Inl k
                | Inr cats \<Rightarrow>
                    (case jd_goods jd of
                       None \<Rightarrow> Inl ''goods''
                     | Some goods \<Rightarrow> Inr (shop_name', categories_source, cats, goods)))))"

text \<open>The two \<open>try\<close> blocks of the loop body that build the payload of one listing.\<close>

definition build_product_data ::
  "category_source list \<Rightarrow> (int \<rightharpoonup> category_data) \<Rightarrow> product_source \<Rightarrow>
   import_result + product_data" where
  "build_product_data categories_source cats ps =
     (case ps_category ps of
        None \<Rightarrow> Inl (CategoryMatchError (KeyName ''category'') categories_source ps)
      | Some category_external_id \<Rightarrow>
     (case cats category_external_id of
        None \<Rightarrow> Inl (CategoryMatchError (KeyInt category_external_id) categories_source ps)
      | Some category \<Rightarrow>
     (case ps_parameters ps of
        None \<Rightarrow> Inl (ProductParseError ''parameters'' categories_source ps)
      | Some product_parameters' \<Rightarrow>
     (case ps_id ps of
        None \<Rightarrow> Inl (ProductParseError ''id'' categories_source ps)
      | Some external_id \<Rightarrow>
     (case ps_name ps of
        None \<Rightarrow> Inl (ProductParseError ''name'' categories_source ps)
      | Some name \<Rightarrow>
     (case ps_price ps of
        None \<Rightarrow> Inl (ProductParseError ''price'' categories_source ps)
      | Some price \<Rightarrow>
     (case ps_price_rrc ps of
        None \<Rightarrow> Inl (ProductParseError ''price_rrc'' categories_source ps)
      | Some price_rrc \<Rightarrow>
     (case ps_quantity ps of
        None \<Rightarrow> Inl (ProductParseError ''quantity'' categories_source ps)
      | Some quantity \<Rightarrow>
          Inr \<lparr>pd_external_id = external_id, pd_category = category,
               pd_product_name = name, pd_product_parameters = product_parameters',
               pd_price = price, pd_price_rrc = price_rrc,
               pd_quantity = quantity\<rparr>))))))))"

text \<open>
  The validation loop: the first good that fails returns its error; otherwise the
  validated payloads in the order of the goods.
\<close>

fun validate_products ::
  "db \<Rightarrow> category_source list \<Rightarrow> (int \<rightharpoonup> category_data) \<Rightarrow> product_source list \<Rightarrow>
   import_result + product_data list" where
  "validate_products d categories_source cats [] = Inr []"
| "validate_products d categories_source cats (ps # rest) =
     (case build_product_data categories_source cats ps of
        Inl err \<Rightarrow> Inl err
      | Inr pd \<Rightarrow>
          (case is_valid d NoContext pd of
             Inl detail \<Rightarrow> Inl (InvalidProductInfo ps detail)
           | Inr vd \<Rightarrow>
               (case validate_products d categories_source cats rest of
                  Inl err \<Rightarrow> Inl err
                | Inr vds \<Rightarrow> Inr (vd # vds))))"

fun create_all :: "db \<Rightarrow> shop \<Rightarrow> product_data list \<Rightarrow> exn option \<times> db" where
  "create_all d shop [] = (None, d)"
| "create_all d shop (vd # vds) =
     (case serializer_create d shop vd of
        (Inl e, d') \<Rightarrow> (Some e, d')
      | (Inr p, d') \<Rightarrow> create_all d' shop vds)"

fun update_or_create_all :: "db \<Rightarrow> shop \<Rightarrow> product_data list \<Rightarrow> exn option \<times> db" where
  "update_or_create_all d shop [] = (None, d)"
| "update_or_create_all d shop (vd # vds) =
     (case update_or_create d shop vd of
        (Inl e, d') \<Rightarrow> (Some e, d')
      | (Inr p, d') \<Rightarrow> update_or_create_all d' shop vds)"

definition zero_absent :: "db \<Rightarrow> shop \<Rightarrow> product_data list \<Rightarrow> db" where
  "zero_absent d shop validated_product_infos =
     d\<lparr>product_infos :=
         update_rows (\<lambda>p. pi_shop p = shop_id shop \<and>
                          pi_external_id p \<notin> set (map pd_external_id validated_product_infos))
                     (\<lambda>p. p\<lparr>pi_quantity := 0\<rparr>) (product_infos d)\<rparr>"

definition shop_has_product_infos :: "db \<Rightarrow> shop \<Rightarrow> bool" where
  "shop_has_product_infos d shop \<longleftrightarrow>
     (\<exists>p \<in> set (rows (product_infos d)). pi_shop p = shop_id shop)"

text \<open>The last step: bulk creation, or zeroing of the absent listings and upsert.\<close>

definition write_product_infos :: "db \<Rightarrow> shop \<Rightarrow> bool \<Rightarrow> product_data list \<Rightarrow> exn option \<times> db" where
  "write_product_infos d shop shop_created validated_product_infos =
     (if shop_created \<or> \<not> shop_has_product_infos d shop
      then create_all d shop validated_product_infos
      else update_or_create_all (zero_absent d shop validated_product_infos) shop
             validated_product_infos)"

definition import_products :: "db \<Rightarrow> pk \<Rightarrow> string \<Rightarrow> json_data \<Rightarrow> import_result \<times> db" where
  "import_products d user_id user_email jd =
     (case parse_json_data jd of
        Inl invalid_field \<Rightarrow> (ParseError invalid_field, d)
      | Inr (shop_name', categories_source, cats, goods) \<Rightarrow>
          (let shop_email = (case jd_email jd of None \<Rightarrow> user_email | Some e \<Rightarrow> e);
               shop_base_shipping_price =
                 (case jd_shipping_price jd of None \<Rightarrow> 300 | Some p \<Rightarrow> p)
           in case Shop_get_or_create d user_id shop_name' shop_email shop_base_shipping_price of
                Inl e \<Rightarrow> (ShopNameOccupied shop_name', d)
              | Inr (shop, shop_created, d1) \<Rightarrow>
                  (case validate_products d1 categories_source cats goods of
                     Inl err \<Rightarrow> (err, d1)
                   | Inr validated_product_infos \<Rightarrow>
                       (case write_product_infos d1 shop shop_created validated_product_infos of
                          (Some e, d2) \<Rightarrow> (Raised e, d2)
                        | (None, d2) \<Rightarrow> (StatusOk (shop_id shop), d2)))))"

section \<open>Baskets and orders\<close>

text \<open>
  Modelled from the spec: the properties \<open>basket_queryset\<close> and \<open>basket_object\<close> of the
  User model are in the absent model file. By sections 4.2 to 4.4 they are the buyer's
  BuyerOrders in \<open>basket\<close> state and the first of them, if any.
\<close>

definition basket_queryset :: "db \<Rightarrow> pk \<Rightarrow> buyer_order list" where
  "basket_queryset d u =
     filter (\<lambda>b. bo_user b = u \<and> bo_state b = BO_basket) (rows (buyer_orders d))"

definition basket_object :: "db \<Rightarrow> pk \<Rightarrow> buyer_order option" where
  "basket_object d u = (case basket_queryset d u of [] \<Rightarrow> None | b # bs \<Rightarrow> Some b)"

definition seller_orders_of :: "db \<Rightarrow> buyer_order \<Rightarrow> seller_order list" where
  "seller_orders_of d b =
     filter (\<lambda>so. so_buyer_order so = bo_id b) (rows (seller_orders d))"

definition ordered_items_of :: "db \<Rightarrow> seller_order \<Rightarrow> seller_order_item list" where
  "ordered_items_of d so =
     filter (\<lambda>it. item_order it = so_id so) (rows (seller_order_items d))"

text \<open>
  What the basket and order serializers show: the BuyerOrder, its SellerOrders and their
  line items, each with the \<open>status\<close> annotation it carries, if any.
\<close>

datatype item_status = TooManyOrdered int int

record order_view =
  ov_order :: buyer_order
  ov_seller_orders :: "(seller_order \<times> (seller_order_item \<times> item_status option) list) list"

definition order_tree :: "db \<Rightarrow> buyer_order \<Rightarrow> (pk \<rightharpoonup> item_status) \<Rightarrow> order_view" where
  "order_tree d b statuses =
     \<lparr>ov_order = b,
      ov_seller_orders =
        map (\<lambda>so. (so, map (\<lambda>it. (it, statuses (item_id it))) (ordered_items_of d so)))
            (seller_orders_of d b)\<rparr>"

subsection \<open>Basket Aggregator: \<open>BasketView.post\<close>\<close>

text \<open>
  \<open>OrderItemBaseSerializer(many=True)\<close>: every item names an existing listing (the
  validated value is the ProductInfo row, whose \<open>id\<close> the view reads) and a quantity of
  at least 1.
\<close>

definition OrderItemBaseSerializer :: "db \<Rightarrow> pk \<times> int \<Rightarrow> (pk \<times> int) option" where
  "OrderItemBaseSerializer d item =
     (case find (\<lambda>p. pi_id p = fst item) (rows (product_infos d)) of
        None \<Rightarrow> None
      | Some p \<Rightarrow> Option.bind (IntegerField (Some 1) (snd item)) (\<lambda>q. Some (pi_id p, q)))"

fun validated_ordered_items :: "(pk \<times> int) list \<Rightarrow> (pk \<rightharpoonup> int) \<Rightarrow> (pk \<rightharpoonup> int)" where
  "validated_ordered_items [] m = m"
| "validated_ordered_items (item # rest) m = validated_ordered_items rest (m(fst item \<mapsto> snd item))"

text \<open>
  The open shops joined with their requested listings: a shop occurs once for every
  requested listing it owns.
\<close>

definition requested_product_infos :: "db \<Rightarrow> (pk \<rightharpoonup> int) \<Rightarrow> shop \<Rightarrow> product_info list" where
  "requested_product_infos d items s =
     filter (\<lambda>p. pi_shop p = shop_id s \<and> items (pi_id p) \<noteq> None) (rows (product_infos d))"

definition shops_with_ordered_products :: "db \<Rightarrow> (pk \<rightharpoonup> int) \<Rightarrow> shop list" where
  "shops_with_ordered_products d items =
     concat (map (\<lambda>s. map (\<lambda>p. s) (requested_product_infos d items s))
                 (filter shop_is_open (rows (shops d))))"

definition SellerOrder_get_or_create :: "db \<Rightarrow> buyer_order \<Rightarrow> shop \<Rightarrow> seller_order \<times> db" where
  "SellerOrder_get_or_create d basket s =
     (let (so, t) = get_or_create
                      (\<lambda>so. so_buyer_order so = bo_id basket \<and> so_shop so = shop_id s \<and>
                             so_state so = SO_basket)
                      (\<lambda>i. \<lparr>so_id = i, so_buyer_order = bo_id basket, so_shop = shop_id s,
                            so_state = SO_basket,
                            so_shipping_price = shop_base_shipping_price s,
                            so_contact = None, so_created_at = None\<rparr>)
                      (seller_orders d)
      in (so, d\<lparr>seller_orders := t\<rparr>))"

definition SellerOrderItem_update_or_create ::
  "db \<Rightarrow> seller_order \<Rightarrow> product_info \<Rightarrow> int \<Rightarrow> db" where
  "SellerOrderItem_update_or_create d order' p quantity =
     (case find (\<lambda>it. item_order it = so_id order' \<and> item_product_info it = pi_id p)
                (rows (seller_order_items d)) of
        Some it \<Rightarrow>
          d\<lparr>seller_order_items :=
              update_rows (\<lambda>r. item_id r = item_id it)
                (\<lambda>r. it\<lparr>item_quantity := quantity, item_purchase_price := pi_price p,
                         item_purchase_price_rrc := pi_price_rrc p\<rparr>)
                (seller_order_items d)\<rparr>
      | None \<Rightarrow>
          d\<lparr>seller_order_items :=
              snd (insert_row (\<lambda>i. \<lparr>item_id = i, item_order = so_id order',
                                   item_product_info = pi_id p, item_quantity = quantity,
                                   item_purchase_price = pi_price p,
                                   item_purchase_price_rrc = pi_price_rrc p\<rparr>)
                     (seller_order_items d))\<rparr>)"

text \<open>
  The items of one shop. Every listing of the loop was selected by a key of
  \<open>validated_ordered_items\<close>, so the lookup of its quantity finds it.
\<close>

fun add_items :: "db \<Rightarrow> seller_order \<Rightarrow> (pk \<rightharpoonup> int) \<Rightarrow> product_info list \<Rightarrow> db" where
  "add_items d order' items [] = d"
| "add_items d order' items (p # ps) =
     (case items (pi_id p) of
        None \<Rightarrow> add_items d order' items ps
      | Some quantity \<Rightarrow>
          add_items (SellerOrderItem_update_or_create d order' p quantity) order' items ps)"

text \<open>
  The loop over the shops; the listings of each shop are those prefetched when the
  queryset was evaluated, that is, in the store \<open>d0\<close> before the loop.
\<close>

fun add_shops :: "db \<Rightarrow> db \<Rightarrow> buyer_order \<Rightarrow> (pk \<rightharpoonup> int) \<Rightarrow> shop list \<Rightarrow> db" where
  "add_shops d0 d basket items [] = d"
| "add_shops d0 d basket items (s # ss) =
     (let (order', d1) = SellerOrder_get_or_create d basket s
      in add_shops d0 (add_items d1 order' items (requested_product_infos d0 items s))
           basket items ss)"

datatype basket_response =
  BadRequest
  | ApiError string
  | Ok200 "order_view option"
  | Created201 "order_view option"

definition BuyerOrder_create :: "db \<Rightarrow> pk \<Rightarrow> buyer_order \<times> db" where
  "BuyerOrder_create d u =
     (let (b, t) = insert_row (\<lambda>i. \<lparr>bo_id = i, bo_user = u, bo_state = BO_basket,
                                   bo_contact = None, bo_created_at = None\<rparr>) (buyer_orders d)
      in (b, d\<lparr>buyer_orders := t\<rparr>))"

definition BasketView_post :: "db \<Rightarrow> pk \<Rightarrow> (pk \<times> int) list \<Rightarrow> basket_response \<times> db" where
  "BasketView_post d u request_data =
     (let (basket, d1) = (case basket_object d u of
                            Some b \<Rightarrow> (b, d)
                          | None \<Rightarrow> BuyerOrder_create d u)
      in case many (OrderItemBaseSerializer d1) request_data of
           None \<Rightarrow> (BadRequest, d1)
         | Some validated \<Rightarrow>
             (let items = validated_ordered_items validated Map.empty;
                  d2 = add_shops d1 d1 basket items (shops_with_ordered_products d1 items)
              in (Created201 (map_option (\<lambda>b. order_tree d2 b Map.empty) (basket_object d2 u)),
                  d2)))"

subsection \<open>Basket Pruner: \<open>BasketView.delete\<close>\<close>

text \<open>The query parameter: \<open>strip\<close> and \<open>split\<close> on the delimiter, \<open>isdigit\<close>, \<open>int\<close>.\<close>

definition BASKET_DEL_PARAM_DELIMITER :: char where
  "BASKET_DEL_PARAM_DELIMITER = CHR '',''"

definition strip_delimiter :: "string \<Rightarrow> string" where
  "strip_delimiter s =
     rev (dropWhile (\<lambda>c. c = BASKET_DEL_PARAM_DELIMITER)
       (rev (dropWhile (\<lambda>c. c = BASKET_DEL_PARAM_DELIMITER) s)))"

fun split_delimiter :: "string \<Rightarrow> string \<Rightarrow> string list" where
  "split_delimiter [] cur = [rev cur]"
| "split_delimiter (c # cs) cur =
     (if c = BASKET_DEL_PARAM_DELIMITER then rev cur # split_delimiter cs []
      else split_delimiter cs (c # cur))"

definition isdigit :: "string \<Rightarrow> bool" where
  "isdigit s \<longleftrightarrow> s \<noteq> [] \<and> (\<forall>c \<in> set s. c \<in> set ''0123456789'')"

definition int_of_digits :: "string \<Rightarrow> nat" where
  "int_of_digits s = fold (\<lambda>c n. 10 * n + (of_char c - 48)) s 0"

datatype delete_error =
  ParamRequired
  | ParamValueError string
  | BasketDoesNotExist
  | UnknownIds "pk set"

fun parse_ids :: "string list \<Rightarrow> pk set \<Rightarrow> delete_error + pk set" where
  "parse_ids [] ids_to_del = Inr ids_to_del"
| "parse_ids (item # rest) ids_to_del =
     (if item = [] then parse_ids rest ids_to_del
      else if isdigit item \<and> 0 < int_of_digits item
           then parse_ids rest (insert (int_of_digits item) ids_to_del)
           else Inl (ParamValueError item))"

definition ids_to_del_of :: "string option \<Rightarrow> delete_error + pk set" where
  "ids_to_del_of param =
     (case param of
        None \<Rightarrow> Inl ParamRequired
      | Some v \<Rightarrow>
          (let ids_to_del_value = strip_delimiter v in
           if ids_to_del_value = [] then Inl (ParamValueError [BASKET_DEL_PARAM_DELIMITER])
           else parse_ids (split_delimiter ids_to_del_value []) {}))"

text \<open>
  The loop over the SellerOrders of the basket. It carries the ids still to delete and
  collects the SellerOrders to delete as a whole and the line items to delete alone.
\<close>

fun collect_to_del ::
  "(seller_order \<times> seller_order_item list) list \<Rightarrow> pk set \<Rightarrow> pk set \<times> pk set \<Rightarrow> pk set \<times> pk set" where
  "collect_to_del [] ids_to_del acc = acc"
| "collect_to_del ((seller_order, ordered_items) # rest) ids_to_del acc =
     (let ordered_product_ids = set (map item_product_info ordered_items);
          items_to_del_in_current_order = ordered_product_ids \<inter> ids_to_del
      in if items_to_del_in_current_order = {} then collect_to_del rest ids_to_del acc
         else (let acc' =
                     (if ordered_product_ids = items_to_del_in_current_order
                      then (insert (so_id seller_order) (fst acc), snd acc)
                      else (fst acc,
                            snd acc \<union> set (map item_id
                              (filter (\<lambda>it. item_product_info it \<in> items_to_del_in_current_order)
                                 ordered_items))));
                    ids_to_del' = ids_to_del - items_to_del_in_current_order
               in if ids_to_del' = {} then acc'
                  else collect_to_del rest ids_to_del' acc'))"

text \<open>
  Modelled from the spec: the foreign keys are declared in the absent model file. By
  section 4.4 step 4 deleting a BuyerOrder cascades to its SellerOrders and their line
  items, and deleting a SellerOrder to its line items.
\<close>

definition delete_seller_orders :: "db \<Rightarrow> (seller_order \<Rightarrow> bool) \<Rightarrow> db" where
  "delete_seller_orders d P =
     d\<lparr>seller_orders := delete_rows P (seller_orders d),
       seller_order_items :=
         delete_rows (\<lambda>it. \<exists>so \<in> set (rows (seller_orders d)). P so \<and> item_order it = so_id so)
           (seller_order_items d)\<rparr>"

definition delete_buyer_order :: "db \<Rightarrow> buyer_order \<Rightarrow> db" where
  "delete_buyer_order d b =
     (let d1 = delete_seller_orders d (\<lambda>so. so_buyer_order so = bo_id b)
      in d1\<lparr>buyer_orders := delete_rows (\<lambda>r. bo_id r = bo_id b) (buyer_orders d1)\<rparr>)"

datatype delete_response = DeleteError delete_error | Deleted "order_view option"

text \<open>
  \<open>BasketView.delete\<close> after the parameter is parsed. (The \<open>remove\<close> calls of the source
  detach rows that the two \<open>delete\<close> calls at the end erase; the store after the
  request is the one after these deletions.)
\<close>

definition delete_ids :: "db \<Rightarrow> pk \<Rightarrow> pk set \<Rightarrow> delete_response \<times> db" where
  "delete_ids d u ids_to_del =
     (case basket_object d u of
        None \<Rightarrow> (DeleteError BasketDoesNotExist, d)
      | Some basket \<Rightarrow>
          (let seller_orders_baskets = seller_orders_of d basket;
               all_ordered_ids =
                 set (concat (map (\<lambda>so. map item_product_info (ordered_items_of d so))
                                  seller_orders_baskets));
               unknown_ids = ids_to_del - all_ordered_ids
           in if unknown_ids \<noteq> {} then (DeleteError (UnknownIds unknown_ids), d)
              else if bo_state basket = BO_basket \<and> ids_to_del = all_ordered_ids
              then (Deleted None, delete_buyer_order d basket)
              else (let (seller_orders_to_del, ordered_items_to_del) =
                          collect_to_del
                            (map (\<lambda>so. (so, ordered_items_of d so)) seller_orders_baskets)
                            ids_to_del ({}, {});
                        d1 = delete_seller_orders d
                               (\<lambda>so. so_buyer_order so = bo_id basket \<and>
                                      so_id so \<in> seller_orders_to_del);
                        d2 = d1\<lparr>seller_order_items :=
                                  delete_rows (\<lambda>it. item_id it \<in> ordered_items_to_del)
                                    (seller_order_items d1)\<rparr>
                    in (Deleted (Some (order_tree d2 basket Map.empty)), d2))))"

definition BasketView_delete :: "db \<Rightarrow> pk \<Rightarrow> string option \<Rightarrow> delete_response \<times> db" where
  "BasketView_delete d u param =
     (case ids_to_del_of param of
        Inl e \<Rightarrow> (DeleteError e, d)
      | Inr ids_to_del \<Rightarrow> delete_ids d u ids_to_del)"

subsection \<open>Checkout Validator: \<open>OrderViewSet.create\<close>\<close>

text \<open>
  \<open>BuyerOrderSerializer\<close> on the request: the contact must exist, belong to the user
  and not be deleted.
\<close>

definition validate_contact_id :: "db \<Rightarrow> pk \<Rightarrow> pk option \<Rightarrow> contact option" where
  "validate_contact_id d u request_contact_id =
     (case request_contact_id of
        None \<Rightarrow> None
      | Some c \<Rightarrow>
          find (\<lambda>r. contact_id r = c \<and> contact_user r = u \<and> \<not> contact_is_deleted r)
               (rows (contacts d)))"

record check_state =
  acceptable_order :: bool
  quantity_to_update :: "pk \<rightharpoonup> int"
  item_statuses :: "pk \<rightharpoonup> item_status"

text \<open>
  The first pass over the line items of one SellerOrder: a shortfall clears the flag and
  annotates the item; otherwise, while the flag still holds, the new quantity of the
  listing is staged.
\<close>

fun check_ordered_items :: "db \<Rightarrow> seller_order_item list \<Rightarrow> check_state \<Rightarrow> exn + check_state" where
  "check_ordered_items d [] st = Inr st"
| "check_ordered_items d (ordered_item # rest) st =
     (case find (\<lambda>p. pi_id p = item_product_info ordered_item) (rows (product_infos d)) of
        None \<Rightarrow> Inl DoesNotExist
      | Some ordered_product_info \<Rightarrow>
          (let ordered_quantity = item_quantity ordered_item;
               available_quantity = pi_quantity ordered_product_info;
               result_quantity = available_quantity - ordered_quantity
           in if result_quantity < 0
              then check_ordered_items d rest
                     (st\<lparr>acceptable_order := False,
                         item_statuses := (item_statuses st)(item_id ordered_item \<mapsto>
                           TooManyOrdered ordered_quantity available_quantity)\<rparr>)
              else if acceptable_order st
              then check_ordered_items d rest
                     (st\<lparr>quantity_to_update :=
                           (quantity_to_update st)(pi_id ordered_product_info \<mapsto> result_quantity)\<rparr>)
              else check_ordered_items d rest st))"

fun check_all_orders :: "db \<Rightarrow> seller_order list \<Rightarrow> check_state \<Rightarrow> exn + check_state" where
  "check_all_orders d [] st = Inr st"
| "check_all_orders d (seller_order # rest) st =
     (case check_ordered_items d (ordered_items_of d seller_order) st of
        Inl e \<Rightarrow> Inl e
      | Inr st' \<Rightarrow> check_all_orders d rest st')"

text \<open>The second pass, taken only when the order is acceptable.\<close>

fun update_quantities :: "db \<Rightarrow> (pk \<rightharpoonup> int) \<Rightarrow> seller_order_item list \<Rightarrow> exn option \<times> db" where
  "update_quantities d staged [] = (None, d)"
| "update_quantities d staged (ordered_item # rest) =
     (case staged (item_product_info ordered_item) of
        None \<Rightarrow> (Some KeyError, d)
      | Some q \<Rightarrow>
          update_quantities
            (d\<lparr>product_infos :=
                 update_rows (\<lambda>p. pi_id p = item_product_info ordered_item)
                   (\<lambda>p. p\<lparr>pi_quantity := q\<rparr>) (product_infos d)\<rparr>)
            staged rest)"

fun confirm_seller_orders ::
  "db \<Rightarrow> (pk \<rightharpoonup> int) \<Rightarrow> contact \<Rightarrow> nat \<Rightarrow> (seller_order \<times> seller_order_item list) list \<Rightarrow>
   exn option \<times> db" where
  "confirm_seller_orders d staged users_contact current_date [] = (None, d)"
| "confirm_seller_orders d staged users_contact current_date ((seller_order, ordered_items) # rest) =
     (case update_quantities d staged ordered_items of
        (Some e, d1) \<Rightarrow> (Some e, d1)
      | (None, d1) \<Rightarrow>
          confirm_seller_orders
            (d1\<lparr>seller_orders :=
                  update_rows (\<lambda>r. so_id r = so_id seller_order)
                    (\<lambda>r. seller_order\<lparr>so_contact := Some (contact_id users_contact),
                                       so_state := SO_new,
                                       so_created_at := Some current_date\<rparr>)
                    (seller_orders d1)\<rparr>)
            staged users_contact current_date rest)"

datatype order_response =
  NoOrderToConfirm
  | InvalidContact
  | ServerError exn
  | Created order_view
  | PartialContent order_view

text \<open>
  \<open>OrderViewSet.create\<close>. The e-mails to the sellers and to the buyer go to the
  notification sink after the writes; they do not touch the store and are left out.
\<close>

definition OrderViewSet_create ::
  "db \<Rightarrow> pk \<Rightarrow> pk option \<Rightarrow> nat \<Rightarrow> order_response \<times> db" where
  "OrderViewSet_create d u request_contact_id current_date =
     (case basket_object d u of
        None \<Rightarrow> (NoOrderToConfirm, d)
      | Some order' \<Rightarrow>
     (case validate_contact_id d u request_contact_id of
        None \<Rightarrow> (InvalidContact, d)
      | Some users_contact \<Rightarrow>
     (let all_orders = seller_orders_of d order' in
      case check_all_orders d all_orders
             \<lparr>acceptable_order = True, quantity_to_update = Map.empty,
              item_statuses = Map.empty\<rparr> of
        Inl e \<Rightarrow> (ServerError e, d)
      | Inr st \<Rightarrow>
          if acceptable_order st
          then (case confirm_seller_orders d (quantity_to_update st) users_contact current_date
                       (map (\<lambda>so. (so, ordered_items_of d so)) all_orders) of
                  (Some e, d1) \<Rightarrow> (ServerError e, d1)
                | (None, d1) \<Rightarrow>
                    (let order'' = order'\<lparr>bo_state := BO_accepted,
                                          bo_created_at := Some current_date\<rparr>;
                         d2 = d1\<lparr>buyer_orders :=
                                   update_rows (\<lambda>r. bo_id r = bo_id order') (\<lambda>r. order'')
                                     (buyer_orders d1)\<rparr>
                     in (Created (order_tree d2 order'' (item_statuses st)), d2)))
          else (PartialContent (order_tree d order' (item_statuses st)), d))))"

section \<open>Predicates and example data used in the statements\<close>

text \<open>The tables that the catalog import never writes after the shop is resolved.\<close>

definition non_catalog ::
  "db \<Rightarrow> shop table \<times> contact table \<times> buyer_order table \<times> seller_order table \<times>
        seller_order_item table" where
  "non_catalog d = (shops d, contacts d, buyer_orders d, seller_orders d, seller_order_items d)"

text \<open>The four failures of a run that the validation steps report.\<close>

fun is_validation_failure :: "import_result \<Rightarrow> bool" where
  "is_validation_failure (ParseError f) = True"
| "is_validation_failure (CategoryMatchError k cs ps) = True"
| "is_validation_failure (ProductParseError f cs ps) = True"
| "is_validation_failure (InvalidProductInfo ps detail) = True"
| "is_validation_failure r = False"

definition empty_table :: "'r table" where
  "empty_table = \<lparr>rows = [], next_pk = 1\<rparr>"

definition empty_db :: db where
  "empty_db =
     \<lparr>shops = empty_table, categories = empty_table, shop_categories = empty_table,
      products = empty_table, product_infos = empty_table, parameters = empty_table,
      parameter_values = empty_table, product_parameters = empty_table,
      contacts = empty_table, buyer_orders = empty_table, seller_orders = empty_table,
      seller_order_items = empty_table\<rparr>"

text \<open>The scenario of section 8: shop A, category Toys, one good.\<close>

definition ex_ball :: product_source where
  "ex_ball = \<lparr>ps_id = Some 10, ps_category = Some 1, ps_name = Some ''Ball'',
              ps_parameters = Some [(''color'', ''red'')], ps_price = Some 100,
              ps_price_rrc = Some 150, ps_quantity = Some 5\<rparr>"

definition ex_payload :: json_data where
  "ex_payload = \<lparr>jd_shop = Some ''A'',
                 jd_categories = Some [\<lparr>cs_id = Some 1, cs_name = Some ''Toys''\<rparr>],
                 jd_goods = Some [ex_ball], jd_email = None, jd_shipping_price = None\<rparr>"

text \<open>The store after owner 7 has imported the scenario's payload into the empty store.\<close>

definition ex_db1 :: db where
  "ex_db1 = snd (import_products empty_db 7 ''u@example.org'' ex_payload)"

text \<open>The scenario's payload with a good whose category id is not in the category list.\<close>

definition ex_payload_unknown_category :: json_data where
  "ex_payload_unknown_category = ex_payload\<lparr>jd_goods := Some [ex_ball\<lparr>ps_category := Some 2\<rparr>]\<rparr>"

text \<open>The listing payload that \<open>import_products\<close> builds for the scenario's good.\<close>

definition ex_product_data :: product_data where
  "ex_product_data =
     \<lparr>pd_external_id = 10, pd_category = \<lparr>cd_name = ''Toys'', cd_external_id = 1\<rparr>,
      pd_product_name = ''Ball'', pd_product_parameters = [(''color'', ''red'')],
      pd_price = 100, pd_price_rrc = 150, pd_quantity = 5\<rparr>"

text \<open>The scenario's payload with a second good of negative quantity after the first.\<close>

definition ex_payload_negative_quantity :: json_data where
  "ex_payload_negative_quantity =
     ex_payload\<lparr>jd_goods := Some [ex_ball, ex_ball\<lparr>ps_id := Some 11, ps_quantity := Some (- 1)\<rparr>]\<rparr>"

text \<open>
  The listing of a line item, and the annotation the checkout gives the item: the
  shortfall message when more is ordered than the listing has in stock.
\<close>

definition listing_of :: "db \<Rightarrow> seller_order_item \<Rightarrow> product_info option" where
  "listing_of d it = find (\<lambda>p. pi_id p = item_product_info it) (rows (product_infos d))"

definition shortfall :: "db \<Rightarrow> seller_order_item \<Rightarrow> bool" where
  "shortfall d it =
     (case listing_of d it of None \<Rightarrow> False | Some p \<Rightarrow> pi_quantity p < item_quantity it)"

definition annotation :: "db \<Rightarrow> seller_order_item \<Rightarrow> item_status option" where
  "annotation d it =
     (case listing_of d it of
        None \<Rightarrow> None
      | Some p \<Rightarrow> if pi_quantity p < item_quantity it
                  then Some (TooManyOrdered (item_quantity it) (pi_quantity p)) else None)"

definition annotated_basket :: "db \<Rightarrow> buyer_order \<Rightarrow> order_view" where
  "annotated_basket d b =
     \<lparr>ov_order = b,
      ov_seller_orders =
        map (\<lambda>so. (so, map (\<lambda>it. (it, annotation d it)) (ordered_items_of d so)))
            (seller_orders_of d b)\<rparr>"

definition basket_items :: "db \<Rightarrow> buyer_order \<Rightarrow> seller_order_item list" where
  "basket_items d b = concat (map (ordered_items_of d) (seller_orders_of d b))"

text \<open>
  The invariant of the first checkout pass over a set of line items: an item carries
  no status yet, or the annotation its listing's stock gives it.
\<close>

definition status_inv :: "db \<Rightarrow> seller_order_item set \<Rightarrow> check_state \<Rightarrow> bool" where
  "status_inv d A st \<longleftrightarrow>
     (\<forall>it \<in> A. item_statuses st (item_id it) = None \<or>
                item_statuses st (item_id it) = annotation d it)"

text \<open>
  Buyer 8, with one contact, has put 7 pieces of the scenario's listing (stock 5) into
  the basket.
\<close>

definition ex_db2 :: db where
  "ex_db2 = ex_db1\<lparr>contacts := \<lparr>rows = [\<lparr>contact_id = 1, contact_user = 8,
                                            contact_is_deleted = False\<rparr>], next_pk = 2\<rparr>\<rparr>"

definition ex_db3 :: db where
  "ex_db3 = snd (BasketView_post ex_db2 8 [(1, 7)])"

definition ex_basket :: buyer_order where
  "ex_basket = \<lparr>bo_id = 1, bo_user = 8, bo_state = BO_basket, bo_contact = None,
                bo_created_at = None\<rparr>"

text \<open>The basket view writes the SellerOrder and SellerOrderItem tables only.\<close>

definition order_frame :: "db \<Rightarrow> db \<Rightarrow> bool" where
  "order_frame d d' \<longleftrightarrow>
     d' = d\<lparr>seller_orders := seller_orders d', seller_order_items := seller_order_items d'\<rparr>"

text \<open>The BuyerOrder that \<open>BasketView.post\<close> creates for a buyer, and the store with it.\<close>

definition new_basket :: "db \<Rightarrow> pk \<Rightarrow> buyer_order" where
  "new_basket d u = \<lparr>bo_id = next_pk (buyer_orders d), bo_user = u, bo_state = BO_basket,
                     bo_contact = None, bo_created_at = None\<rparr>"

definition with_new_basket :: "db \<Rightarrow> pk \<Rightarrow> db" where
  "with_new_basket d u =
     d\<lparr>buyer_orders := \<lparr>rows = rows (buyer_orders d) @ [new_basket d u],
                          next_pk = Suc (next_pk (buyer_orders d))\<rparr>\<rparr>"

text \<open>The store \<open>ex_db2\<close> with the scenario's shop closed.\<close>

definition ex_db2_closed :: db where
  "ex_db2_closed =
     ex_db2\<lparr>shops := update_rows (\<lambda>s. True) (\<lambda>s. s\<lparr>shop_is_open := False\<rparr>) (shops ex_db2)\<rparr>"

text \<open>
  A table respects its primary key: the keys of its rows are distinct and were handed
  out by its sequence.
\<close>

definition table_ok :: "('r \<Rightarrow> pk) \<Rightarrow> 'r table \<Rightarrow> bool" where
  "table_ok key_of t \<longleftrightarrow>
     distinct (map key_of (rows t)) \<and> (\<forall>r \<in> set (rows t). key_of r < next_pk t)"




text \<open>
  The scenario's listing as stored, and the store \<open>ex_db3\<close> after the partner has
  raised the listing's price from 100 to 120.
\<close>

definition ex_listing :: product_info where
  "ex_listing = \<lparr>pi_id = 1, pi_shop = 1, pi_category = 1, pi_product = 1, pi_external_id = 10,
                 pi_quantity = 5, pi_price = 100, pi_price_rrc = 150\<rparr>"


text \<open>
  For the Basket Pruner: the listing ids ordered in a basket; a SellerOrder all of whose
  line items (at least one) are to be deleted; and the basket invariant that no listing
  occurs in two SellerOrders of the basket (one SellerOrder per shop, a listing belongs
  to one shop).
\<close>

definition all_ordered_ids :: "db \<Rightarrow> buyer_order \<Rightarrow> pk set" where
  "all_ordered_ids d b = set (map item_product_info (basket_items d b))"

definition matched :: "pk set \<Rightarrow> seller_order_item list \<Rightarrow> bool" where
  "matched ids ordered_items \<longleftrightarrow>
     ordered_items \<noteq> [] \<and> (\<forall>it \<in> set ordered_items. item_product_info it \<in> ids)"

fun disjoint_listings :: "(seller_order \<times> seller_order_item list) list \<Rightarrow> bool" where
  "disjoint_listings [] = True"
| "disjoint_listings (x # xs) =
     ((\<forall>y \<in> set xs. set (map item_product_info (snd x)) \<inter> set (map item_product_info (snd y)) = {})
      \<and> disjoint_listings xs)"

definition basket_pairs :: "db \<Rightarrow> buyer_order \<Rightarrow> (seller_order \<times> seller_order_item list) list" where
  "basket_pairs d b = map (\<lambda>so. (so, ordered_items_of d so)) (seller_orders_of d b)"

text \<open>The store without a basket, and the store without the matching part of a basket.\<close>

definition without_basket :: "db \<Rightarrow> buyer_order \<Rightarrow> db" where
  "without_basket d b =
     d\<lparr>seller_orders := delete_rows (\<lambda>so. so_buyer_order so = bo_id b) (seller_orders d),
       seller_order_items := delete_rows (\<lambda>it. it \<in> set (basket_items d b)) (seller_order_items d),
       buyer_orders := delete_rows (\<lambda>r. bo_id r = bo_id b) (buyer_orders d)\<rparr>"

definition without_matching :: "db \<Rightarrow> buyer_order \<Rightarrow> pk set \<Rightarrow> db" where
  "without_matching d b ids =
     d\<lparr>seller_orders :=
         delete_rows (\<lambda>so. so \<in> set (seller_orders_of d b) \<and> matched ids (ordered_items_of d so))
           (seller_orders d),
       seller_order_items :=
         delete_rows (\<lambda>it. it \<in> set (basket_items d b) \<and> item_product_info it \<in> ids)
           (seller_order_items d)\<rparr>"

text \<open>
  A second shop (owner 9) with one listing, and buyer 8's basket with one piece of each
  of the two listings.
\<close>

definition ex_payload_B :: json_data where
  "ex_payload_B =
     \<lparr>jd_shop = Some ''B'',
      jd_categories = Some [\<lparr>cs_id = Some 1, cs_name = Some ''Toys''\<rparr>],
      jd_goods = Some [\<lparr>ps_id = Some 20, ps_category = Some 1, ps_name = Some ''Ball'',
                        ps_parameters = Some [(''color'', ''blue'')], ps_price = Some 90,
                        ps_price_rrc = Some 140, ps_quantity = Some 3\<rparr>],
      jd_email = None, jd_shipping_price = Some 200\<rparr>"

definition ex_db5 :: db where
  "ex_db5 = snd (import_products ex_db2 9 ''v@example.org'' ex_payload_B)"

definition ex_db6 :: db where
  "ex_db6 = snd (BasketView_post ex_db5 8 [(1, 1), (2, 1)])"

text \<open>
  What the pruner's loop collects when no listing occurs in two SellerOrders: the
  SellerOrders whose items all match, and the matching items of the others.
\<close>

definition to_del_orders :: "(seller_order \<times> seller_order_item list) list \<Rightarrow> pk set \<Rightarrow> pk set" where
  "to_del_orders sos ids = (\<Union>x \<in> set sos. if matched ids (snd x) then {so_id (fst x)} else {})"

definition to_del_items :: "(seller_order \<times> seller_order_item list) list \<Rightarrow> pk set \<Rightarrow> pk set" where
  "to_del_items sos ids =
     (\<Union>x \<in> set sos. if matched ids (snd x) then {}
                      else item_id ` {it \<in> set (snd x). item_product_info it \<in> ids})"

text \<open>
  For the catalog import: a table grows by appending rows; the dereference of a
  ProductParameter row to its names; the constraints of the catalog tables; and the
  facts that the stored listing of a validated payload has its fields and its parameters.
\<close>

definition table_extends :: "'r table \<Rightarrow> 'r table \<Rightarrow> bool" where
  "table_extends t t' \<longleftrightarrow> (\<exists>more. rows t' = rows t @ more)"

definition deref_parameter :: "db \<Rightarrow> product_parameter \<Rightarrow> (string \<times> string) option" where
  "deref_parameter d r =
     Option.bind (str_parameter d (pp_parameter r)) (\<lambda>k.
     Option.bind (str_value d (pp_value r)) (\<lambda>v. Some (k, v)))"

definition catalog_ok :: "db \<Rightarrow> bool" where
  "catalog_ok d \<longleftrightarrow>
     table_ok pi_id (product_infos d) \<and>
     table_ok parameter_id (parameters d) \<and>
     table_ok value_id (parameter_values d) \<and>
     (\<forall>r \<in> set (rows (product_parameters d)). pp_product_info r < next_pk (product_infos d))"

definition fields_match :: "db \<Rightarrow> shop \<Rightarrow> product_data \<Rightarrow> bool" where
  "fields_match d s vd \<longleftrightarrow>
     (case shop_instance d s (pd_external_id vd) of
        None \<Rightarrow> False
      | Some p \<Rightarrow> pi_quantity p = pd_quantity vd \<and> pi_price p = pd_price vd \<and>
                  pi_price_rrc p = pd_price_rrc vd)"

definition parameters_match :: "db \<Rightarrow> shop \<Rightarrow> product_data \<Rightarrow> bool" where
  "parameters_match d s vd \<longleftrightarrow>
     (case shop_instance d s (pd_external_id vd) of
        None \<Rightarrow> False
      | Some p \<Rightarrow>
          (case brief_parameters d p of
             None \<Rightarrow> False
           | Some old \<Rightarrow> sort_key fst old = sort_key fst (pd_product_parameters vd)))"

text \<open>The part of the store that \<open>add_parameters\<close> does not write.\<close>

definition parameter_frame :: "db \<Rightarrow> db \<Rightarrow> bool" where
  "parameter_frame d d' \<longleftrightarrow>
     shops d' = shops d \<and> categories d' = categories d \<and>
     shop_categories d' = shop_categories d \<and> products d' = products d \<and>
     product_infos d' = product_infos d \<and> contacts d' = contacts d \<and>
     buyer_orders d' = buyer_orders d \<and> seller_orders d' = seller_orders d \<and>
     seller_order_items d' = seller_order_items d"

text \<open>The tables that decide how a listing and its parameters read.\<close>

definition listing_tables ::
  "db \<Rightarrow> product_info table \<times> parameter table \<times> value_of_parameter table \<times>
        product_parameter table" where
  "listing_tables d = (product_infos d, parameters d, parameter_values d, product_parameters d)"




text \<open>
  For the re-import. Two rows are the same listing when they agree on the primary key,
  the shop, the category, the product and the external\_id; a listing table keeps the
  listings of another when it starts with the same listings in the same order. The
  run's listing set is the list of the ids of the payload's goods. A good is upserted
  when the shop's listing with its id holds its quantity, price and price\_rrc and its
  validated parameters, compared as the code compares them: sorted by parameter name.
\<close>

definition same_listing :: "product_info \<Rightarrow> product_info \<Rightarrow> bool" where
  "same_listing p p' \<longleftrightarrow>
     pi_id p' = pi_id p \<and> pi_shop p' = pi_shop p \<and> pi_category p' = pi_category p \<and>
     pi_product p' = pi_product p \<and> pi_external_id p' = pi_external_id p"

definition listings_kept :: "product_info table \<Rightarrow> product_info table \<Rightarrow> bool" where
  "listings_kept t t' \<longleftrightarrow>
     length (rows t) \<le> length (rows t') \<and>
     list_all2 same_listing (rows t) (take (length (rows t)) (rows t'))"


definition upserted :: "db \<Rightarrow> shop \<Rightarrow> product_source \<Rightarrow> bool" where
  "upserted d s g \<longleftrightarrow>
     (case ps_id g of
        None \<Rightarrow> False
      | Some i \<Rightarrow>
          (case shop_instance d s i of
             None \<Rightarrow> False
           | Some p \<Rightarrow>
               ps_quantity g = Some (pi_quantity p) \<and> ps_price g = Some (pi_price p) \<and>
               ps_price_rrc g = Some (pi_price_rrc p) \<and>
               (case brief_parameters d p of
                  None \<Rightarrow> False
                | Some old \<Rightarrow>
                    map_option (sort_key fst)
                      (Option.bind (ps_parameters g) (many ProductParameterSerializer)) =
                    Some (sort_key fst old))))"

text \<open>
  The validated payload of a good; and a list of listings that continues another, where
  only listings of one shop with an external\_id of a given set may differ.
\<close>

definition from_source :: "product_source \<Rightarrow> product_data \<Rightarrow> bool" where
  "from_source g vd \<longleftrightarrow>
     ps_id g = Some (pd_external_id vd) \<and> ps_quantity g = Some (pd_quantity vd) \<and>
     ps_price g = Some (pd_price vd) \<and> ps_price_rrc g = Some (pd_price_rrc vd) \<and>
     Option.bind (ps_parameters g) (many ProductParameterSerializer) =
       Some (pd_product_parameters vd)"

definition kept_except :: "pk \<Rightarrow> int set \<Rightarrow> product_info list \<Rightarrow> product_info list \<Rightarrow> bool" where
  "kept_except sid E xs ys \<longleftrightarrow>
     (\<exists>kept more. ys = kept @ more \<and>
        list_all2 (\<lambda>q q'. same_listing q q' \<and> (pi_shop q = sid \<and> pi_external_id q \<in> E \<or> q' = q))
          xs kept)"

text \<open>
  The scenario's shop re-imports a payload that has a cube and no ball.
\<close>

definition ex_cube :: product_source where
  "ex_cube = \<lparr>ps_id = Some 11, ps_category = Some 1, ps_name = Some ''Cube'',
              ps_parameters = Some [(''color'', ''green'')], ps_price = Some 40,
              ps_price_rrc = Some 60, ps_quantity = Some 9\<rparr>"

definition ex_payload_cube :: json_data where
  "ex_payload_cube = ex_payload\<lparr>jd_goods := Some [ex_cube]\<rparr>"

definition ex_shop :: shop where
  "ex_shop = \<lparr>shop_id = 1, shop_owner = 7, shop_name = ''A'', shop_email = ''u@example.org'',
              shop_base_shipping_price = 300, shop_is_open = True\<rparr>"

text \<open>
  For the repeated import. Two goods agree when they carry the same quantity, price and
  price\_rrc and the same validated parameters under sorting by parameter name (what
  \<open>update_or_create\<close> compares); a payload is consistent when goods that share an id
  agree. The same for validated payloads. FK integrity of the listings: every listing
  belongs to a shop whose key has been handed out.
\<close>

definition agree :: "product_source \<Rightarrow> product_source \<Rightarrow> bool" where
  "agree g h \<longleftrightarrow>
     ps_quantity g = ps_quantity h \<and> ps_price g = ps_price h \<and>
     ps_price_rrc g = ps_price_rrc h \<and>
     map_option (sort_key fst) (Option.bind (ps_parameters g) (many ProductParameterSerializer)) =
     map_option (sort_key fst) (Option.bind (ps_parameters h) (many ProductParameterSerializer))"

definition consistent_goods :: "json_data \<Rightarrow> bool" where
  "consistent_goods jd \<longleftrightarrow>
     (case jd_goods jd of
        None \<Rightarrow> True
      | Some goods \<Rightarrow> (\<forall>g \<in> set goods. \<forall>h \<in> set goods. ps_id g = ps_id h \<longrightarrow> agree g h))"

definition same_upsert :: "product_data \<Rightarrow> product_data \<Rightarrow> bool" where
  "same_upsert a b \<longleftrightarrow>
     pd_external_id a = pd_external_id b \<and> pd_quantity a = pd_quantity b \<and>
     pd_price a = pd_price b \<and> pd_price_rrc a = pd_price_rrc b \<and>
     sort_key fst (pd_product_parameters a) = sort_key fst (pd_product_parameters b)"

definition listings_have_shops :: "db \<Rightarrow> bool" where
  "listings_have_shops d \<longleftrightarrow>
     (\<forall>p \<in> set (rows (product_infos d)). pi_shop p < next_pk (shops d))"

text \<open>
  The scenario's shop re-imports a payload that lists the ball twice, red and then blue;
  \<open>ex_db7\<close> is the store after this run.
\<close>

definition ex_payload_twice :: json_data where
  "ex_payload_twice =
     ex_payload\<lparr>jd_goods := Some [ex_ball, ex_ball\<lparr>ps_parameters := Some [(''color'', ''blue'')]\<rparr>]\<rparr>"

definition ex_db7 :: db where
  "ex_db7 = snd (import_products ex_db1 7 ''u@example.org'' ex_payload_twice)"

text \<open>
  For the global rows. Product names, category names, parameter names and parameter
  values are unique; the four global tables only grow; the product row and the category
  row (through the ShopCategory) that a listing references; and the validated product
  name and category name of a good of a payload.
\<close>

definition names_unique :: "db \<Rightarrow> bool" where
  "names_unique d \<longleftrightarrow>
     distinct (map category_name (rows (categories d))) \<and>
     distinct (map product_name (rows (products d))) \<and>
     distinct (map parameter_name (rows (parameters d))) \<and>
     distinct (map value_value (rows (parameter_values d)))"

definition globals_extend :: "db \<Rightarrow> db \<Rightarrow> bool" where
  "globals_extend d d' \<longleftrightarrow>
     table_extends (categories d) (categories d') \<and>
     table_extends (products d) (products d') \<and>
     table_extends (parameters d) (parameters d') \<and>
     table_extends (parameter_values d) (parameter_values d')"

definition product_row :: "db \<Rightarrow> product_info \<Rightarrow> product option" where
  "product_row d p = find (\<lambda>r. product_id r = pi_product p) (rows (products d))"

definition category_row :: "db \<Rightarrow> product_info \<Rightarrow> category option" where
  "category_row d p =
     Option.bind (find (\<lambda>sc. sc_id sc = pi_category p) (rows (shop_categories d)))
       (\<lambda>sc. find (\<lambda>c. category_id c = sc_category sc) (rows (categories d)))"

definition good_product :: "product_source \<Rightarrow> string option" where
  "good_product g = Option.bind (ps_name g) (CharField None)"

definition good_category :: "json_data \<Rightarrow> product_source \<Rightarrow> string option" where
  "good_category jd g =
     (case jd_categories jd of
        None \<Rightarrow> None
      | Some cs \<Rightarrow>
          (case build_categories cs Map.empty of
             Inl k \<Rightarrow> None
           | Inr cats \<Rightarrow>
               Option.bind (Option.bind (ps_category g) cats)
                 (\<lambda>c. map_option cd_name (PartnerCategorySerializer c))))"

text \<open>
  The constraints of the catalog tables, with the primary keys of products, categories
  and shop categories; and the growth of the catalog tables that no listing owns, which
  keeps these constraints.
\<close>

definition store_ok :: "db \<Rightarrow> bool" where
  "store_ok d \<longleftrightarrow>
     catalog_ok d \<and> table_ok product_id (products d) \<and>
     table_ok category_id (categories d) \<and> table_ok sc_id (shop_categories d) \<and>
     names_unique d"

definition grow :: "db \<Rightarrow> db \<Rightarrow> bool" where
  "grow d d' \<longleftrightarrow>
     globals_extend d d' \<and> table_extends (shop_categories d) (shop_categories d') \<and>
     (names_unique d \<longrightarrow> names_unique d') \<and>
     (table_ok product_id (products d) \<longrightarrow> table_ok product_id (products d')) \<and>
     (table_ok category_id (categories d) \<longrightarrow> table_ok category_id (categories d')) \<and>
     (table_ok sc_id (shop_categories d) \<longrightarrow> table_ok sc_id (shop_categories d'))"

definition names_from_source ::
  "(int \<rightharpoonup> category_data) \<Rightarrow> product_source \<Rightarrow> product_data \<Rightarrow> bool" where
  "names_from_source cats g vd \<longleftrightarrow>
     good_product g = Some (pd_product_name vd) \<and>
     Option.bind (Option.bind (ps_category g) cats)
       (\<lambda>c. map_option cd_name (PartnerCategorySerializer c)) = Some (cd_name (pd_category vd))"

text \<open>
  Two ProductParameter rows that refer to a parameter of the same name, or to a value of
  the same text, refer to the same row.
\<close>

definition shared_parameters :: "db \<Rightarrow> bool" where
  "shared_parameters d \<longleftrightarrow>
     (\<forall>x \<in> set (rows (product_parameters d)). \<forall>y \<in> set (rows (product_parameters d)).
        (str_parameter d (pp_parameter x) \<noteq> None \<and>
         str_parameter d (pp_parameter x) = str_parameter d (pp_parameter y) \<longrightarrow>
         pp_parameter x = pp_parameter y) \<and>
        (str_value d (pp_value x) \<noteq> None \<and>
         str_value d (pp_value x) = str_value d (pp_value y) \<longrightarrow>
         pp_value x = pp_value y))"

text \<open>
  Owner 9 imports shop B after the scenario's shop A: first with good 20 named Cube
  (\<open>ex_db8\<close>), then again with good 20 named Ball.
\<close>

definition ex_ball_B :: product_source where
  "ex_ball_B = \<lparr>ps_id = Some 20, ps_category = Some 1, ps_name = Some ''Ball'',
                ps_parameters = Some [(''color'', ''blue'')], ps_price = Some 90,
                ps_price_rrc = Some 140, ps_quantity = Some 3\<rparr>"

definition ex_shop_B :: shop where
  "ex_shop_B = \<lparr>shop_id = 2, shop_owner = 9, shop_name = ''B'', shop_email = ''v@example.org'',
                shop_base_shipping_price = 200, shop_is_open = True\<rparr>"

definition ex_payload_B_cube :: json_data where
  "ex_payload_B_cube = ex_payload_B\<lparr>jd_goods := Some [ex_ball_B\<lparr>ps_name := Some ''Cube''\<rparr>]\<rparr>"

definition ex_db8 :: db where
  "ex_db8 = snd (import_products ex_db1 9 ''v@example.org'' ex_payload_B_cube)"

section \<open>Frame lemmas of the catalog import\<close>

lemma find_append:
  "find P (xs @ ys) = (case find P xs of None \<Rightarrow> find P ys | Some x \<Rightarrow> Some x)"
  by (induction xs) auto

lemma non_catalog_add_parameters_loop:
  "non_catalog (add_parameters_loop d i ps) = non_catalog d"
  by (induction d i ps rule: add_parameters_loop.induct)
     (simp_all add: non_catalog_def Parameter_get_or_create_def ValueOfParameter_get_or_create_def
        split: prod.splits)

lemma non_catalog_add_parameters:
  "non_catalog (add_parameters d p ps b) = non_catalog d"
  by (simp add: add_parameters_def non_catalog_add_parameters_loop) (simp add: non_catalog_def)

lemma non_catalog_serializer_update:
  "non_catalog (snd (serializer_update d p fu)) = non_catalog d"
  using non_catalog_add_parameters[of d p _ True]
  by (auto simp: serializer_update_def Let_def non_catalog_def split: option.splits)

lemma non_catalog_serializer_create:
  "non_catalog (snd (serializer_create d s vd)) = non_catalog d"
  using non_catalog_add_parameters[of _ _ "pd_product_parameters vd" False]
  by (auto simp: serializer_create_def Let_def non_catalog_def Category_get_or_create_def
      ShopCategory_get_or_create_def Product_get_or_create_def ProductInfo_create_def
      split: option.splits prod.splits sum.splits if_splits)

lemma non_catalog_update_or_create:
  "non_catalog (snd (update_or_create d s vd)) = non_catalog d"
  using non_catalog_serializer_create[of d s vd]
  by (auto simp: update_or_create_def Let_def split: option.splits prod.splits)
     (metis non_catalog_serializer_update snd_conv)

lemma non_catalog_create_all:
  "non_catalog (snd (create_all d s vds)) = non_catalog d"
proof (induction vds arbitrary: d)
  case Nil
  then show ?case by simp
next
  case (Cons vd vds)
  show ?case
    using non_catalog_serializer_create[of d s vd] Cons.IH
    by (auto split: prod.splits sum.splits)
qed

lemma non_catalog_update_or_create_all:
  "non_catalog (snd (update_or_create_all d s vds)) = non_catalog d"
proof (induction vds arbitrary: d)
  case Nil
  then show ?case by simp
next
  case (Cons vd vds)
  show ?case
    using non_catalog_update_or_create[of d s vd] Cons.IH
    by (auto split: prod.splits sum.splits)
qed

lemma non_catalog_write_product_infos:
  "non_catalog (snd (write_product_infos d s c vds)) = non_catalog d"
  using non_catalog_update_or_create_all[of "zero_absent d s vds" s vds]
  by (simp add: write_product_infos_def non_catalog_create_all)
     (simp add: non_catalog_def zero_absent_def)

lemma shops_write_product_infos:
  "write_product_infos d s c vds = (x, d') \<Longrightarrow> shops d' = shops d"
  using non_catalog_write_product_infos[of d s c vds] by (simp add: non_catalog_def)

lemma Shop_get_or_create_existing:
  "users_shop d u = Some s \<Longrightarrow> Shop_get_or_create d u n e b = Inr (s, False, d)"
  by (simp add: Shop_get_or_create_def users_shop_def)

lemma Shop_get_or_create_new:
  assumes "users_shop d u = None" and "Shop_get_or_create d u n e b = Inr (s, c, d1)"
  shows "c \<and> rows (shops d1) = rows (shops d) @ [s] \<and> shop_owner s = u \<and> shop_name s = n \<and>
         shop_email s = e \<and> shop_base_shipping_price s = b \<and> shop_id s = next_pk (shops d) \<and>
         d1 = d\<lparr>shops := shops d1\<rparr> \<and> users_shop d1 u = Some s"
  using assms
  by (auto simp: Shop_get_or_create_def users_shop_def insert_row_def find_append split: if_splits)

section \<open>Frame lemmas of the basket view\<close>

lemma order_frame_refl [simp]: "order_frame d d"
  by (simp add: order_frame_def)

lemma order_frame_trans: "order_frame d d1 \<Longrightarrow> order_frame d1 d2 \<Longrightarrow> order_frame d d2"
  unfolding order_frame_def
  by (metis (no_types, lifting) db.surjective db.update_convs(11) db.update_convs(12))

lemma order_frame_item_update_or_create:
  "order_frame d (SellerOrderItem_update_or_create d so p q)"
  by (simp add: order_frame_def SellerOrderItem_update_or_create_def split: option.splits)

lemma order_frame_add_items: "order_frame d (add_items d so items ps)"
proof (induction ps arbitrary: d)
  case Nil
  then show ?case by simp
next
  case (Cons p ps)
  show ?case
    using order_frame_trans[OF order_frame_item_update_or_create Cons.IH] Cons.IH
    by (auto split: option.splits)
qed

lemma order_frame_SellerOrder_get_or_create:
  "order_frame d (snd (SellerOrder_get_or_create d b s))"
  by (simp add: order_frame_def SellerOrder_get_or_create_def split: prod.splits)

lemma order_frame_add_shops: "order_frame d (add_shops d0 d b items ss)"
proof (induction ss arbitrary: d)
  case Nil
  then show ?case by simp
next
  case (Cons s ss)
  obtain so d1 where g: "SellerOrder_get_or_create d b s = (so, d1)"
    by (cases "SellerOrder_get_or_create d b s")
  have "order_frame d d1"
    using order_frame_SellerOrder_get_or_create[of d b s] g by simp
  then have "order_frame d (add_items d1 so items (requested_product_infos d0 items s))"
    using order_frame_add_items order_frame_trans by blast
  then have "order_frame d (add_shops d0 (add_items d1 so items (requested_product_infos d0 items s))
                              b items ss)"
    using Cons.IH order_frame_trans by blast
  then show ?case
    using g by simp
qed

section \<open>Line items and their price snapshot\<close>

lemma find_update_same:
  assumes "find P xs = Some x" and "\<forall>y \<in> set xs. Q y \<longrightarrow> y = x" and "Q x" and "P (f x)"
  shows "find P (map (\<lambda>r. if Q r then f r else r) xs) = Some (f x)"
proof -
  have Px: "P x" using assms(1) by (auto simp: find_Some_iff)
  show ?thesis
    using assms(1,2)
  proof (induction xs)
    case Nil
    then show ?case by simp
  next
    case (Cons a xs)
    show ?case
    proof (cases "P a")
      case True
      with Cons.prems assms(3,4) show ?thesis by auto
    next
      case False
      with Cons.prems Px have "\<not> Q a" by auto
      with False Cons show ?thesis by auto
    qed
  qed
qed

lemma find_update_other:
  assumes "find P xs = Some x" and "\<forall>y \<in> set xs. Q y \<longrightarrow> \<not> P y \<and> \<not> P (f y)"
  shows "find P (map (\<lambda>r. if Q r then f r else r) xs) = Some x"
  using assms
proof (induction xs)
  case Nil
  then show ?case by simp
next
  case (Cons a xs)
  then show ?case by (cases "P a") auto
qed

lemma table_ok_inj:
  "table_ok k t \<Longrightarrow> a \<in> set (rows t) \<Longrightarrow> b \<in> set (rows t) \<Longrightarrow> k a = k b \<Longrightarrow> a = b"
  by (auto simp: table_ok_def distinct_map dest: inj_onD)

lemma table_ok_update_rows:
  assumes "table_ok k t" and "\<And>r. r \<in> set (rows t) \<Longrightarrow> Q r \<Longrightarrow> k (f r) = k r"
  shows "table_ok k (update_rows Q f t)"
proof -
  let ?g = "\<lambda>r. if Q r then f r else r"
  have eq: "map k (map ?g (rows t)) = map k (rows t)"
    using assms(2) by simp
  have "distinct (map k (rows t))"
    using assms(1) by (simp add: table_ok_def)
  then have d: "distinct (map k (map ?g (rows t)))"
    by (simp only: eq)
  have lt: "\<forall>r \<in> set (rows t). k (?g r) < next_pk t"
    using assms by (auto simp: table_ok_def)
  have lt': "\<forall>r \<in> set (map ?g (rows t)). k r < next_pk t"
    using lt by (simp only: set_map ball_simps) 
  show ?thesis
    using d lt' by (simp add: table_ok_def update_rows_def del: set_map)
qed

lemma table_ok_insert_row:
  assumes "table_ok k t" and "\<And>i. k (mk i) = i"
  shows "table_ok k (snd (insert_row mk t))"
  using assms by (auto simp: table_ok_def insert_row_def less_Suc_eq)













section \<open>The loop of the Basket Pruner\<close>

lemma to_del_Nil [simp]: "to_del_orders [] ids = {}" "to_del_items [] ids = {}"
  by (simp_all add: to_del_orders_def to_del_items_def)

lemma to_del_orders_Cons:
  "to_del_orders (x # xs) ids =
     (if matched ids (snd x) then {so_id (fst x)} else {}) \<union> to_del_orders xs ids"
  by (simp add: to_del_orders_def)

lemma to_del_items_Cons:
  "to_del_items (x # xs) ids =
     (if matched ids (snd x) then {}
      else item_id ` {it \<in> set (snd x). item_product_info it \<in> ids}) \<union> to_del_items xs ids"
  by (simp add: to_del_items_def)

lemma to_del_disjoint:
  assumes "\<forall>y \<in> set xs. set (map item_product_info (snd y)) \<inter> ids = {}"
  shows "to_del_orders xs ids = {}" and "to_del_items xs ids = {}"
proof -
  have nm: "\<not> matched ids (snd y)" if "y \<in> set xs" for y
  proof
    assume m: "matched ids (snd y)"
    then obtain it where "it \<in> set (snd y)" by (cases "snd y") (auto simp: matched_def)
    with m have "item_product_info it \<in> set (map item_product_info (snd y)) \<inter> ids"
      by (auto simp: matched_def)
    with assms that show False by blast
  qed
  have ni: "{it \<in> set (snd y). item_product_info it \<in> ids} = {}" if "y \<in> set xs" for y
    using assms that by auto
  show "to_del_orders xs ids = {}"
    using nm by (simp add: to_del_orders_def)
  show "to_del_items xs ids = {}"
    using nm ni by (simp add: to_del_items_def)
qed

lemma to_del_cong:
  assumes "\<forall>y \<in> set xs. \<forall>i \<in> set (map item_product_info (snd y)). i \<in> ids' \<longleftrightarrow> i \<in> ids"
  shows "to_del_orders xs ids' = to_del_orders xs ids" and "to_del_items xs ids' = to_del_items xs ids"
proof -
  have m: "matched ids' (snd y) = matched ids (snd y)" if "y \<in> set xs" for y
    using assms that by (auto simp: matched_def)
  have i: "{it \<in> set (snd y). item_product_info it \<in> ids'} =
           {it \<in> set (snd y). item_product_info it \<in> ids}" if "y \<in> set xs" for y
    using assms that by auto
  show "to_del_orders xs ids' = to_del_orders xs ids"
    using m by (simp add: to_del_orders_def)
  show "to_del_items xs ids' = to_del_items xs ids"
    using m i by (simp add: to_del_items_def)
qed

lemma collect_to_del_eq:
  assumes "disjoint_listings sos"
  shows "collect_to_del sos ids acc =
           (fst acc \<union> to_del_orders sos ids, snd acc \<union> to_del_items sos ids)"
  using assms
proof (induction sos arbitrary: ids acc)
  case Nil
  then show ?case by simp
next
  case (Cons x xs)
  obtain so its where x: "x = (so, its)" by (cases x)
  define L where "L = set (map item_product_info its)"
  define cur where "cur = L \<inter> ids"
  have dj: "\<forall>y \<in> set xs. L \<inter> set (map item_product_info (snd y)) = {}"
    and dr: "disjoint_listings xs"
    using Cons.prems by (auto simp: x L_def)
  have m_iff: "matched ids its \<longleftrightarrow> cur \<noteq> {} \<and> L = cur"
    by (cases its) (auto simp: matched_def cur_def L_def)
  show ?case
  proof (cases "cur = {}")
    case True
    then have nm: "\<not> matched ids its" using m_iff by simp
    have ni: "{it \<in> set its. item_product_info it \<in> ids} = {}"
      using True by (auto simp: cur_def L_def)
    have "collect_to_del (x # xs) ids acc = collect_to_del xs ids acc"
      using True by (simp add: x cur_def L_def Let_def)
    then show ?thesis
      using Cons.IH[OF dr, of ids acc] nm ni
      by (auto simp: to_del_orders_Cons to_del_items_Cons x)
  next
    case False
    define acc' where "acc' =
       (if L = cur then (insert (so_id so) (fst acc), snd acc)
        else (fst acc, snd acc \<union> set (map item_id (filter (\<lambda>it. item_product_info it \<in> cur) its))))"
    have fl: "set (map item_id (filter (\<lambda>it. item_product_info it \<in> cur) its)) =
              item_id ` {it \<in> set its. item_product_info it \<in> ids}"
      by (auto simp: cur_def L_def)
    have acc'_eq: "acc' = (fst acc \<union> (if matched ids its then {so_id so} else {}),
                           snd acc \<union> (if matched ids its then {}
                              else item_id ` {it \<in> set its. item_product_info it \<in> ids}))"
      using False m_iff fl by (auto simp: acc'_def)
    show ?thesis
    proof (cases "ids - cur = {}")
      case True
      then have "\<forall>y \<in> set xs. set (map item_product_info (snd y)) \<inter> ids = {}"
        using dj by (auto simp: cur_def)
      from to_del_disjoint[OF this]
      have e: "to_del_orders xs ids = {}" "to_del_items xs ids = {}" .
      have "collect_to_del (x # xs) ids acc = acc'"
        using False True by (simp add: x cur_def L_def Let_def acc'_def)
      then show ?thesis
        using acc'_eq e by (simp add: to_del_orders_Cons to_del_items_Cons x)
    next
      case nonempty: False
      have "\<forall>y \<in> set xs. \<forall>i \<in> set (map item_product_info (snd y)). i \<in> ids - cur \<longleftrightarrow> i \<in> ids"
        using dj by (auto simp: cur_def)
      from to_del_cong[OF this]
      have e: "to_del_orders xs (ids - cur) = to_del_orders xs ids"
              "to_del_items xs (ids - cur) = to_del_items xs ids" .
      have "collect_to_del (x # xs) ids acc = collect_to_del xs (ids - cur) acc'"
        using False nonempty by (simp add: x cur_def L_def Let_def acc'_def)
      then show ?thesis
        using Cons.IH[OF dr, of "ids - cur" acc'] acc'_eq e
        by (simp add: to_del_orders_Cons to_del_items_Cons x Un_assoc)
    qed
  qed
qed

lemma delete_rows_cong:
  "(\<And>r. r \<in> set (rows t) \<Longrightarrow> P r = Q r) \<Longrightarrow> delete_rows P t = delete_rows Q t"
  by (simp add: delete_rows_def cong: filter_cong)

lemma delete_rows_twice:
  "delete_rows Q (delete_rows P t) = delete_rows (\<lambda>r. P r \<or> Q r) t"
  by (simp add: delete_rows_def)

lemma mem_basket_items:
  "it \<in> set (basket_items d b) \<longleftrightarrow>
     it \<in> set (rows (seller_order_items d)) \<and>
     (\<exists>so \<in> set (seller_orders_of d b). item_order it = so_id so)"
  by (auto simp: basket_items_def ordered_items_of_def)

lemma mem_seller_orders_of:
  "so \<in> set (seller_orders_of d b) \<longleftrightarrow>
     so \<in> set (rows (seller_orders d)) \<and> so_buyer_order so = bo_id b"
  by (auto simp: seller_orders_of_def)

lemma mem_to_del_orders:
  "i \<in> to_del_orders (basket_pairs d b) ids \<longleftrightarrow>
     (\<exists>so \<in> set (seller_orders_of d b). matched ids (ordered_items_of d so) \<and> so_id so = i)"
  by (force simp: to_del_orders_def basket_pairs_def split: if_splits)

lemma mem_to_del_items:
  "i \<in> to_del_items (basket_pairs d b) ids \<longleftrightarrow>
     (\<exists>so \<in> set (seller_orders_of d b). \<not> matched ids (ordered_items_of d so) \<and>
        (\<exists>it \<in> set (ordered_items_of d so). item_product_info it \<in> ids \<and> item_id it = i))"
  by (force simp: to_del_items_def basket_pairs_def split: if_splits)

lemma basket_object_Some:
  "basket_object d u = Some b \<Longrightarrow> bo_state b = BO_basket \<and> bo_user b = u"
proof -
  assume "basket_object d u = Some b"
  then have "b \<in> set (basket_queryset d u)"
    by (auto simp: basket_object_def split: list.splits)
  then show ?thesis by (simp add: basket_queryset_def)
qed

lemma model_all_ordered_ids:
  "set (concat (map (\<lambda>so. map item_product_info (ordered_items_of d so)) (seller_orders_of d b)))
     = all_ordered_ids d b"
  by (simp add: all_ordered_ids_def basket_items_def map_concat comp_def)

lemma delete_buyer_order_eq: "delete_buyer_order d b = without_basket d b"
proof -
  have "delete_rows (\<lambda>it. \<exists>so \<in> set (rows (seller_orders d)).
            so_buyer_order so = bo_id b \<and> item_order it = so_id so) (seller_order_items d) =
        delete_rows (\<lambda>it. it \<in> set (basket_items d b)) (seller_order_items d)"
    by (rule delete_rows_cong) (auto simp: mem_basket_items mem_seller_orders_of)
  then show ?thesis
    by (simp add: delete_buyer_order_def delete_seller_orders_def without_basket_def Let_def)
qed

lemma delete_matching_eq:
  fixes d :: db and b :: buyer_order and ids :: "pk set"
  assumes so_ok: "table_ok so_id (seller_orders d)"
      and it_ok: "table_ok item_id (seller_order_items d)"
  defines "S \<equiv> to_del_orders (basket_pairs d b) ids"
      and "I \<equiv> to_del_items (basket_pairs d b) ids"
  defines "d1 \<equiv> delete_seller_orders d (\<lambda>so. so_buyer_order so = bo_id b \<and> so_id so \<in> S)"
  shows "d1\<lparr>seller_order_items := delete_rows (\<lambda>it. item_id it \<in> I) (seller_order_items d1)\<rparr>
           = without_matching d b ids"
proof -
  let ?P = "\<lambda>so. so_buyer_order so = bo_id b \<and> so_id so \<in> S"
  have so_eq: "?P so = (so \<in> set (seller_orders_of d b) \<and> matched ids (ordered_items_of d so))"
    if "so \<in> set (rows (seller_orders d))" for so
  proof
    assume P: "?P so"
    then obtain so' where so': "so' \<in> set (seller_orders_of d b)"
        "matched ids (ordered_items_of d so')" "so_id so' = so_id so"
      by (auto simp: S_def mem_to_del_orders)
    then have "so' = so"
      using table_ok_inj[OF so_ok _ that] by (auto simp: mem_seller_orders_of)
    with so' show "so \<in> set (seller_orders_of d b) \<and> matched ids (ordered_items_of d so)"
      by simp
  next
    assume "so \<in> set (seller_orders_of d b) \<and> matched ids (ordered_items_of d so)"
    then show "?P so"
      by (auto simp: S_def mem_to_del_orders mem_seller_orders_of)
  qed
  have sos: "delete_rows ?P (seller_orders d) =
             delete_rows (\<lambda>so. so \<in> set (seller_orders_of d b) \<and> matched ids (ordered_items_of d so))
               (seller_orders d)"
    by (rule delete_rows_cong) (rule so_eq)
  have it_eq: "((\<exists>so \<in> set (rows (seller_orders d)). ?P so \<and> item_order it = so_id so) \<or>
                item_id it \<in> I) =
               (it \<in> set (basket_items d b) \<and> item_product_info it \<in> ids)"
    if itr: "it \<in> set (rows (seller_order_items d))" for it
  proof
    assume "(\<exists>so \<in> set (rows (seller_orders d)). ?P so \<and> item_order it = so_id so) \<or> item_id it \<in> I"
    then show "it \<in> set (basket_items d b) \<and> item_product_info it \<in> ids"
    proof
      assume "\<exists>so \<in> set (rows (seller_orders d)). ?P so \<and> item_order it = so_id so"
      then obtain so where so: "so \<in> set (rows (seller_orders d))" "?P so" "item_order it = so_id so"
        by blast
      then have m: "so \<in> set (seller_orders_of d b)" "matched ids (ordered_items_of d so)"
        using so_eq by auto
      have "it \<in> set (ordered_items_of d so)"
        using itr so(3) by (simp add: ordered_items_of_def)
      then show ?thesis
        using m so(3) itr by (auto simp: matched_def mem_basket_items)
    next
      assume "item_id it \<in> I"
      then obtain so it' where so: "so \<in> set (seller_orders_of d b)"
          "it' \<in> set (ordered_items_of d so)" "item_product_info it' \<in> ids" "item_id it' = item_id it"
        by (auto simp: I_def mem_to_del_items)
      then have "it' \<in> set (rows (seller_order_items d))"
        by (simp add: ordered_items_of_def)
      then have "it' = it"
        using table_ok_inj[OF it_ok _ itr] so(4) by blast
      then show ?thesis
        using so itr by (auto simp: mem_basket_items ordered_items_of_def)
    qed
  next
    assume r: "it \<in> set (basket_items d b) \<and> item_product_info it \<in> ids"
    then obtain so where so: "so \<in> set (seller_orders_of d b)" "item_order it = so_id so"
      by (auto simp: mem_basket_items)
    have ito: "it \<in> set (ordered_items_of d so)"
      using itr so(2) by (simp add: ordered_items_of_def)
    show "(\<exists>so \<in> set (rows (seller_orders d)). ?P so \<and> item_order it = so_id so) \<or> item_id it \<in> I"
    proof (cases "matched ids (ordered_items_of d so)")
      case True
      then have "?P so" using so(1) so_eq by (auto simp: mem_seller_orders_of)
      then show ?thesis using so by (auto simp: mem_seller_orders_of)
    next
      case False
      then have "item_id it \<in> I"
        using so(1) ito r by (auto simp: I_def mem_to_del_items)
      then show ?thesis by simp
    qed
  qed
  have its: "delete_rows (\<lambda>it. item_id it \<in> I)
               (delete_rows (\<lambda>it. \<exists>so \<in> set (rows (seller_orders d)). ?P so \<and> item_order it = so_id so)
                  (seller_order_items d)) =
             delete_rows (\<lambda>it. it \<in> set (basket_items d b) \<and> item_product_info it \<in> ids)
               (seller_order_items d)"
    unfolding delete_rows_twice by (rule delete_rows_cong) (rule it_eq)
  show ?thesis
    using sos its
    by (simp add: d1_def delete_seller_orders_def without_matching_def)
qed

section \<open>The catalog tables under the import\<close>

lemma table_extends_refl [simp]: "table_extends t t"
  by (simp add: table_extends_def)

lemma table_extends_trans:
  "table_extends t t1 \<Longrightarrow> table_extends t1 t2 \<Longrightarrow> table_extends t t2"
  by (auto simp: table_extends_def)

lemma find_extends:
  "table_extends t t' \<Longrightarrow> find P (rows t) = Some r \<Longrightarrow> find P (rows t') = Some r"
  by (auto simp: table_extends_def find_append)

lemma table_ok_find_key:
  assumes "table_ok k t" and "r \<in> set (rows t)"
  shows "find (\<lambda>x. k x = k r) (rows t) = Some r"
proof -
  obtain x where x: "find (\<lambda>x. k x = k r) (rows t) = Some x"
    using assms(2) by (cases "find (\<lambda>x. k x = k r) (rows t)") (auto simp: find_None_iff)
  then have "x \<in> set (rows t)" "k x = k r"
    by (auto simp: find_Some_iff)
  then have "x = r" using table_ok_inj[OF assms(1) _ assms(2)] by blast
  with x show ?thesis by simp
qed

lemma get_or_create_props:
  assumes ok: "table_ok k t" and mk: "\<And>i. k (mk i) = i" and P: "\<And>i. P (mk i)"
      and g: "get_or_create P mk t = (r, t')"
  shows "table_ok k t'" and "table_extends t t'" and "r \<in> set (rows t')" and "P r"
    and "find (\<lambda>x. k x = k r) (rows t') = Some r"
    and "next_pk t \<le> next_pk t'"
proof -
  show ok': "table_ok k t'"
    using g ok table_ok_insert_row[OF ok mk]
    by (auto simp: get_or_create_def split: option.splits)
  show "table_extends t t'"
    using g by (auto simp: get_or_create_def insert_row_def table_extends_def split: option.splits)
  show r: "r \<in> set (rows t')"
    using g by (auto simp: get_or_create_def insert_row_def find_Some_iff split: option.splits)
  show "P r"
    using g P by (auto simp: get_or_create_def insert_row_def find_Some_iff split: option.splits)
  show "find (\<lambda>x. k x = k r) (rows t') = Some r"
    by (rule table_ok_find_key[OF ok' r])
  show "next_pk t \<le> next_pk t'"
    using g by (auto simp: get_or_create_def insert_row_def split: option.splits)
qed

lemma many_append:
  "many f (xs @ ys) =
     (case many f xs of None \<Rightarrow> None
      | Some as \<Rightarrow> (case many f ys of None \<Rightarrow> None | Some bs \<Rightarrow> Some (as @ bs)))"
  by (induction xs) (auto split: option.splits)

lemma many_cong_Some:
  "many f xs = Some ys \<Longrightarrow> (\<And>x y. x \<in> set xs \<Longrightarrow> f x = Some y \<Longrightarrow> g x = Some y) \<Longrightarrow>
   many g xs = Some ys"
proof (induction xs arbitrary: ys)
  case Nil
  then show ?case by simp
next
  case (Cons x xs)
  then show ?case by (auto split: option.splits)
qed

lemma brief_parameters_deref:
  "brief_parameters d p = many (deref_parameter d) (instance_parameters d p)"
proof -
  have "deref_parameter d = (\<lambda>r. Option.bind (str_parameter d (pp_parameter r))
            (\<lambda>k. Option.bind (str_value d (pp_value r)) (\<lambda>v. Some (k, v))))"
    by (rule ext) (simp add: deref_parameter_def)
  then show ?thesis by (simp add: brief_parameters_def)
qed

lemma str_parameter_extends:
  "table_extends (parameters d) (parameters d') \<Longrightarrow> str_parameter d i = Some k \<Longrightarrow>
   str_parameter d' i = Some k"
  by (auto simp: str_parameter_def dest: find_extends)

lemma str_value_extends:
  "table_extends (parameter_values d) (parameter_values d') \<Longrightarrow> str_value d i = Some k \<Longrightarrow>
   str_value d' i = Some k"
  by (auto simp: str_value_def dest: find_extends)

lemma deref_parameter_extends:
  assumes "table_extends (parameters d) (parameters d')"
      and "table_extends (parameter_values d) (parameter_values d')"
      and "deref_parameter d r = Some kv"
  shows "deref_parameter d' r = Some kv"
  using assms
  by (auto simp: deref_parameter_def str_parameter_extends str_value_extends
           split: Option.bind_splits)

lemma Parameter_get_or_create_props:
  assumes ok: "table_ok parameter_id (parameters d)"
      and g: "Parameter_get_or_create d k = (par, d1)"
  shows "\<exists>t. d1 = d\<lparr>parameters := t\<rparr> \<and> table_ok parameter_id t \<and>
             table_extends (parameters d) t \<and> str_parameter d1 (parameter_id par) = Some k"
proof -
  obtain t where t: "get_or_create (\<lambda>p. parameter_name p = k)
                       (\<lambda>i. \<lparr>parameter_id = i, parameter_name = k\<rparr>) (parameters d) = (par, t)"
    and d1: "d1 = d\<lparr>parameters := t\<rparr>"
    using g by (auto simp: Parameter_get_or_create_def split: prod.splits)
  note p = get_or_create_props[OF ok _ _ t]
  have "find (\<lambda>x. parameter_id x = parameter_id par) (rows t) = Some par" "parameter_name par = k"
    using p(5) p(4) by simp_all
  then have "str_parameter d1 (parameter_id par) = Some k"
    by (simp add: str_parameter_def d1)
  then show ?thesis
    using d1 p(1) p(2) by auto
qed

lemma ValueOfParameter_get_or_create_props:
  assumes ok: "table_ok value_id (parameter_values d)"
      and g: "ValueOfParameter_get_or_create d v = (val, d1)"
  shows "\<exists>t. d1 = d\<lparr>parameter_values := t\<rparr> \<and> table_ok value_id t \<and>
             table_extends (parameter_values d) t \<and> str_value d1 (value_id val) = Some v"
proof -
  obtain t where t: "get_or_create (\<lambda>p. value_value p = v)
                       (\<lambda>i. \<lparr>value_id = i, value_value = v\<rparr>) (parameter_values d) = (val, t)"
    and d1: "d1 = d\<lparr>parameter_values := t\<rparr>"
    using g by (auto simp: ValueOfParameter_get_or_create_def split: prod.splits)
  note p = get_or_create_props[OF ok _ _ t]
  have "find (\<lambda>x. value_id x = value_id val) (rows t) = Some val" "value_value val = v"
    using p(5) p(4) by simp_all
  then have "str_value d1 (value_id val) = Some v"
    by (simp add: str_value_def d1)
  then show ?thesis
    using d1 p(1) p(2) by auto
qed

lemma parameter_frame_refl [simp]: "parameter_frame d d"
  by (simp add: parameter_frame_def)

lemma parameter_frame_trans:
  "parameter_frame d d1 \<Longrightarrow> parameter_frame d1 d2 \<Longrightarrow> parameter_frame d d2"
  by (simp add: parameter_frame_def)

lemma add_parameters_loop_props:
  assumes "table_ok parameter_id (parameters d)" and "table_ok value_id (parameter_values d)"
  shows "parameter_frame d (add_parameters_loop d n ps) \<and>
         table_ok parameter_id (parameters (add_parameters_loop d n ps)) \<and>
         table_ok value_id (parameter_values (add_parameters_loop d n ps)) \<and>
         table_extends (parameters d) (parameters (add_parameters_loop d n ps)) \<and>
         table_extends (parameter_values d) (parameter_values (add_parameters_loop d n ps)) \<and>
         (\<exists>new. rows (product_parameters (add_parameters_loop d n ps)) =
                  rows (product_parameters d) @ new \<and>
                (\<forall>r \<in> set new. pp_product_info r = n) \<and>
                many (deref_parameter (add_parameters_loop d n ps)) new = Some ps)"
  using assms
proof (induction ps arbitrary: d)
  case Nil
  then show ?case by simp
next
  case (Cons kv rest)
  obtain par d1 where g1: "Parameter_get_or_create d (fst kv) = (par, d1)"
    by (cases "Parameter_get_or_create d (fst kv)")
  obtain val d2 where g2: "ValueOfParameter_get_or_create d1 (snd kv) = (val, d2)"
    by (cases "ValueOfParameter_get_or_create d1 (snd kv)")
  from Parameter_get_or_create_props[OF Cons.prems(1) g1]
  obtain t1 where p1: "d1 = d\<lparr>parameters := t1\<rparr>" "table_ok parameter_id t1"
      "table_extends (parameters d) t1" "str_parameter d1 (parameter_id par) = Some (fst kv)"
    by blast
  have v1: "table_ok value_id (parameter_values d1)"
    using Cons.prems(2) by (simp add: p1(1))
  from ValueOfParameter_get_or_create_props[OF v1 g2]
  obtain t2 where p2: "d2 = d1\<lparr>parameter_values := t2\<rparr>" "table_ok value_id t2"
      "table_extends (parameter_values d1) t2" "str_value d2 (value_id val) = Some (snd kv)"
    by blast
  define r1 where "r1 = \<lparr>pp_id = next_pk (product_parameters d2), pp_product_info = n,
                         pp_parameter = parameter_id par, pp_value = value_id val\<rparr>"
  define d3 where "d3 = d2\<lparr>product_parameters :=
        \<lparr>rows = rows (product_parameters d2) @ [r1],
         next_pk = Suc (next_pk (product_parameters d2))\<rparr>\<rparr>"
  have step: "add_parameters_loop d n (kv # rest) = add_parameters_loop d3 n rest"
    using g1 g2 by (simp add: d3_def r1_def insert_row_def)
  have ok3: "table_ok parameter_id (parameters d3)" "table_ok value_id (parameter_values d3)"
    using p1(2) p2(2) by (simp_all add: d3_def p1(1) p2(1))
  from Cons.IH[OF ok3]
  obtain new where ih: "parameter_frame d3 (add_parameters_loop d3 n rest)"
      "table_ok parameter_id (parameters (add_parameters_loop d3 n rest))"
      "table_ok value_id (parameter_values (add_parameters_loop d3 n rest))"
      "table_extends (parameters d3) (parameters (add_parameters_loop d3 n rest))"
      "table_extends (parameter_values d3) (parameter_values (add_parameters_loop d3 n rest))"
      "rows (product_parameters (add_parameters_loop d3 n rest)) = rows (product_parameters d3) @ new"
      "\<forall>r \<in> set new. pp_product_info r = n"
      "many (deref_parameter (add_parameters_loop d3 n rest)) new = Some rest"
    by blast
  define d' where "d' = add_parameters_loop d3 n rest"
  have fr3: "parameter_frame d d3"
    by (simp add: parameter_frame_def d3_def p1(1) p2(1))
  have fr: "parameter_frame d d'"
    using parameter_frame_trans[OF fr3] ih(1) by (simp add: d'_def)
  have e1: "table_extends (parameters d) (parameters d')"
    using table_extends_trans[OF p1(3)] ih(4) by (simp add: d3_def d'_def p1(1) p2(1))
  have e2: "table_extends (parameter_values d) (parameter_values d')"
    using table_extends_trans[OF p2(3)] ih(5) by (simp add: d3_def d'_def p1(1) p2(1))
  have s3: "str_parameter d3 (parameter_id par) = Some (fst kv)"
    using p1(4) by (simp add: str_parameter_def d3_def p1(1) p2(1))
  have sv3: "str_value d3 (value_id val) = Some (snd kv)"
    using p2(4) by (simp add: str_value_def d3_def p1(1) p2(1))
  have "deref_parameter d3 r1 = Some kv"
    using s3 sv3 by (simp add: deref_parameter_def r1_def)
  then have dr1: "deref_parameter d' r1 = Some kv"
    using deref_parameter_extends ih(4,5) d'_def by blast
  have rows': "rows (product_parameters d') = rows (product_parameters d) @ (r1 # new)"
    using ih(6) by (simp add: d3_def d'_def p1(1) p2(1))
  have all: "\<forall>r \<in> set (r1 # new). pp_product_info r = n"
    using ih(7) by (simp add: r1_def)
  have m: "many (deref_parameter d') (r1 # new) = Some (kv # rest)"
    using dr1 ih(8) by (simp add: d'_def)
  show ?case
    unfolding step d'_def[symmetric]
    using fr ih(2,3) e1 e2 rows' all m d'_def by blast
qed

lemma listing_tables_simps:
  "listing_tables d' = listing_tables d \<Longrightarrow> product_infos d' = product_infos d"
  "listing_tables d' = listing_tables d \<Longrightarrow> parameters d' = parameters d"
  "listing_tables d' = listing_tables d \<Longrightarrow> parameter_values d' = parameter_values d"
  "listing_tables d' = listing_tables d \<Longrightarrow> product_parameters d' = product_parameters d"
  by (simp_all add: listing_tables_def)

lemma listing_tables_get_or_creates:
  "listing_tables (snd (Category_get_or_create d n)) = listing_tables d"
  "listing_tables (snd (Product_get_or_create d n)) = listing_tables d"
  "ShopCategory_get_or_create d s c e = Inr (sc, d') \<Longrightarrow> listing_tables d' = listing_tables d"
  by (auto simp: listing_tables_def Category_get_or_create_def Product_get_or_create_def
        ShopCategory_get_or_create_def split: prod.splits option.splits if_splits)

lemma shop_instance_None_iff:
  "shop_instance d s e = None \<longleftrightarrow> \<not> shop_has_external_id d (shop_id s) e"
  by (auto simp: shop_instance_def shop_has_external_id_def find_None_iff)

lemma add_parameters_False:
  "add_parameters d p ps False = add_parameters_loop d (pi_id p) ps"
  by (simp add: add_parameters_def)

lemma serializer_create_effect:
  assumes ok: "catalog_ok d"
      and c: "serializer_create d s vd = (Inr p, d')"
  shows "shop_instance d s (pd_external_id vd) = None"
    and "pi_id p = next_pk (product_infos d)"
    and "pi_shop p = shop_id s" and "pi_external_id p = pd_external_id vd"
    and "pi_quantity p = pd_quantity vd" and "pi_price p = pd_price vd"
    and "pi_price_rrc p = pd_price_rrc vd"
    and "product_infos d' = \<lparr>rows = rows (product_infos d) @ [p],
                              next_pk = Suc (next_pk (product_infos d))\<rparr>"
    and "table_ok parameter_id (parameters d')" and "table_ok value_id (parameter_values d')"
    and "table_extends (parameters d) (parameters d')"
    and "table_extends (parameter_values d) (parameter_values d')"
    and "\<exists>new. rows (product_parameters d') = rows (product_parameters d) @ new \<and>
               (\<forall>r \<in> set new. pp_product_info r = pi_id p) \<and>
               many (deref_parameter d') new = Some (pd_product_parameters vd)"
proof -
  obtain co d1 where g1: "Category_get_or_create d (cd_name (pd_category vd)) = (co, d1)"
    by (cases "Category_get_or_create d (cd_name (pd_category vd))")
  obtain sc d2 where g2: "ShopCategory_get_or_create d1 s co (cd_external_id (pd_category vd)) = Inr (sc, d2)"
    using c g1 by (auto simp: serializer_create_def split: sum.splits prod.splits)
  obtain po d3 where g3: "Product_get_or_create d2 (pd_product_name vd) = (po, d3)"
    by (cases "Product_get_or_create d2 (pd_product_name vd)")
  obtain d4 where g4: "ProductInfo_create d3 po s sc vd = Inr (p, d4)"
    and d': "d' = add_parameters_loop d4 (pi_id p) (pd_product_parameters vd)"
    using c g1 g2 g3
    by (auto simp: serializer_create_def add_parameters_False split: sum.splits prod.splits)
  have lt: "listing_tables d3 = listing_tables d"
    using listing_tables_get_or_creates(1)[of d "cd_name (pd_category vd)"]
          listing_tables_get_or_creates(3)[OF g2]
          listing_tables_get_or_creates(2)[of d2 "pd_product_name vd"] g1 g3
    by simp
  note same = listing_tables_simps[OF lt]
  have ne: "\<not> shop_has_external_id d3 (shop_id s) (pd_external_id vd)"
    and p: "p = \<lparr>pi_id = next_pk (product_infos d3), pi_shop = shop_id s,
                 pi_category = sc_id sc, pi_product = product_id po,
                 pi_external_id = pd_external_id vd, pi_quantity = pd_quantity vd,
                 pi_price = pd_price vd, pi_price_rrc = pd_price_rrc vd\<rparr>"
    and d4: "d4 = d3\<lparr>product_infos := \<lparr>rows = rows (product_infos d3) @ [p],
                                         next_pk = Suc (next_pk (product_infos d3))\<rparr>\<rparr>"
    using g4 by (auto simp: ProductInfo_create_def insert_row_def split: if_splits)
  have "shop_has_external_id d3 = shop_has_external_id d"
    using same(1) by (simp add: shop_has_external_id_def fun_eq_iff)
  with ne show "shop_instance d s (pd_external_id vd) = None"
    by (simp add: shop_instance_None_iff)
  show "pi_id p = next_pk (product_infos d)" "pi_shop p = shop_id s"
       "pi_external_id p = pd_external_id vd" "pi_quantity p = pd_quantity vd"
       "pi_price p = pd_price vd" "pi_price_rrc p = pd_price_rrc vd"
    using same(1) by (simp_all add: p)
  have ok4: "table_ok parameter_id (parameters d4)" "table_ok value_id (parameter_values d4)"
    using ok same by (simp_all add: catalog_ok_def d4)
  note apl = add_parameters_loop_props[OF ok4, of "pi_id p" "pd_product_parameters vd",
                                       folded d']
  have fr: "parameter_frame d4 d'" using apl by simp
  show "product_infos d' = \<lparr>rows = rows (product_infos d) @ [p],
                              next_pk = Suc (next_pk (product_infos d))\<rparr>"
    using fr same(1) by (simp add: parameter_frame_def d4)
  show "table_ok parameter_id (parameters d')" "table_ok value_id (parameter_values d')"
    using apl by simp_all
  show "table_extends (parameters d) (parameters d')"
       "table_extends (parameter_values d) (parameter_values d')"
    using apl same by (simp_all add: d4)
  show "\<exists>new. rows (product_parameters d') = rows (product_parameters d) @ new \<and>
               (\<forall>r \<in> set new. pp_product_info r = pi_id p) \<and>
               many (deref_parameter d') new = Some (pd_product_parameters vd)"
    using apl same by (simp add: d4)
qed

lemma update_rows_same:
  assumes "table_ok k t" and "r \<in> set (rows t)"
  shows "update_rows (\<lambda>x. k x = k r) (\<lambda>x. r) t = t"
proof -
  have "map (\<lambda>x. if k x = k r then r else x) (rows t) = rows t"
    using table_ok_inj[OF assms(1) _ assms(2)] by (intro map_idI) auto
  then show ?thesis by (simp add: update_rows_def)
qed

lemma shop_instance_Some:
  "shop_instance d s e = Some p \<Longrightarrow>
     p \<in> set (rows (product_infos d)) \<and> pi_shop p = shop_id s \<and> pi_external_id p = e"
  by (auto simp: shop_instance_def find_Some_iff)

lemma changed_fields_instance:
  "inst\<lparr>pi_quantity := (case fu_quantity (changed_fields inst old vd) of
                            None \<Rightarrow> pi_quantity inst | Some q \<Rightarrow> q),
         pi_price := (case fu_price (changed_fields inst old vd) of
                         None \<Rightarrow> pi_price inst | Some p \<Rightarrow> p),
         pi_price_rrc := (case fu_price_rrc (changed_fields inst old vd) of
                             None \<Rightarrow> pi_price_rrc inst | Some p \<Rightarrow> p)\<rparr> =
   inst\<lparr>pi_quantity := pd_quantity vd, pi_price := pd_price vd, pi_price_rrc := pd_price_rrc vd\<rparr>"
  by (simp add: changed_fields_def)

lemma changed_fields_no_fields:
  "changed_fields inst old vd = no_fields \<longleftrightarrow>
     pi_quantity inst = pd_quantity vd \<and> pi_price inst = pd_price vd \<and>
     pi_price_rrc inst = pd_price_rrc vd \<and>
     sort_key fst old = sort_key fst (pd_product_parameters vd)"
  by (auto simp: changed_fields_def no_fields_def)

lemma deref_parameter_update_product_infos [simp]:
  "deref_parameter (d\<lparr>product_infos := t\<rparr>) = deref_parameter d"
  by (rule ext) (simp add: deref_parameter_def str_parameter_def str_value_def)

lemma update_effect:
  assumes ok: "catalog_ok d"
      and si: "shop_instance d s (pd_external_id vd) = Some inst"
      and u: "update_or_create d s vd = (Inr p, d')"
  shows "p = inst\<lparr>pi_quantity := pd_quantity vd, pi_price := pd_price vd,
                  pi_price_rrc := pd_price_rrc vd\<rparr>"
    and "product_infos d' = update_rows (\<lambda>r. pi_id r = pi_id inst) (\<lambda>r. p) (product_infos d)"
    and "table_ok parameter_id (parameters d')" and "table_ok value_id (parameter_values d')"
    and "table_extends (parameters d) (parameters d')"
    and "table_extends (parameter_values d) (parameter_values d')"
    and "\<exists>old. brief_parameters d inst = Some old \<and>
           ((sort_key fst old = sort_key fst (pd_product_parameters vd) \<and>
             product_parameters d' = product_parameters d \<and> parameters d' = parameters d \<and>
             parameter_values d' = parameter_values d) \<or>
            (\<exists>new. rows (product_parameters d') =
                      filter (\<lambda>r. pp_product_info r \<noteq> pi_id inst) (rows (product_parameters d)) @ new \<and>
                   (\<forall>r \<in> set new. pp_product_info r = pi_id inst) \<and>
                   many (deref_parameter d') new = Some (pd_product_parameters vd)))"
proof -
  let ?goal7 = "\<exists>old. brief_parameters d inst = Some old \<and>
           ((sort_key fst old = sort_key fst (pd_product_parameters vd) \<and>
             product_parameters d' = product_parameters d \<and> parameters d' = parameters d \<and>
             parameter_values d' = parameter_values d) \<or>
            (\<exists>new. rows (product_parameters d') =
                      filter (\<lambda>r. pp_product_info r \<noteq> pi_id inst) (rows (product_parameters d)) @ new \<and>
                   (\<forall>r \<in> set new. pp_product_info r = pi_id inst) \<and>
                   many (deref_parameter d') new = Some (pd_product_parameters vd)))"
  let ?p = "inst\<lparr>pi_quantity := pd_quantity vd, pi_price := pd_price vd,
                  pi_price_rrc := pd_price_rrc vd\<rparr>"
  obtain old where old: "brief_parameters d inst = Some old"
    using u si by (auto simp: update_or_create_def split: option.splits)
  define fu where "fu = changed_fields inst old vd"
  have inst_in: "inst \<in> set (rows (product_infos d))"
    using shop_instance_Some[OF si] by simp
  have pok: "table_ok parameter_id (parameters d)" and vok: "table_ok value_id (parameter_values d)"
    and iok: "table_ok pi_id (product_infos d)"
    using ok by (simp_all add: catalog_ok_def)
  have all: "p = ?p \<and>
      product_infos d' = update_rows (\<lambda>r. pi_id r = pi_id inst) (\<lambda>r. p) (product_infos d) \<and>
      table_ok parameter_id (parameters d') \<and> table_ok value_id (parameter_values d') \<and>
      table_extends (parameters d) (parameters d') \<and>
      table_extends (parameter_values d) (parameter_values d') \<and> ?goal7"
  proof (cases "fu = no_fields")
    case True
    then have eqs: "pi_quantity inst = pd_quantity vd" "pi_price inst = pd_price vd"
        "pi_price_rrc inst = pd_price_rrc vd"
        "sort_key fst old = sort_key fst (pd_product_parameters vd)"
      by (simp_all add: fu_def changed_fields_no_fields)
    have r: "p = inst" "d' = d"
      using u si old True by (simp_all add: update_or_create_def fu_def)
    have "inst = ?p" using eqs by simp
    then show ?thesis
      using r eqs(4) old pok vok update_rows_same[OF iok inst_in] by simp
  next
    case False
    define d1 where "d1 = (case fu_product_parameters fu of
                             None \<Rightarrow> d | Some ps \<Rightarrow> add_parameters d inst ps True)"
    have su: "serializer_update d inst fu =
                (?p, d1\<lparr>product_infos := update_rows (\<lambda>r. pi_id r = pi_id inst) (\<lambda>r. ?p)
                                            (product_infos d1)\<rparr>)"
      using changed_fields_instance[of inst old vd]
      by (simp add: serializer_update_def Let_def d1_def fu_def)
    have r: "p = ?p"
      "d' = d1\<lparr>product_infos := update_rows (\<lambda>r. pi_id r = pi_id inst) (\<lambda>r. ?p)
                                  (product_infos d1)\<rparr>"
      using u si old False su by (auto simp: update_or_create_def fu_def)
    have d1p: "product_infos d1 = product_infos d \<and>
               table_ok parameter_id (parameters d1) \<and> table_ok value_id (parameter_values d1) \<and>
               table_extends (parameters d) (parameters d1) \<and>
               table_extends (parameter_values d) (parameter_values d1) \<and>
               ((sort_key fst old = sort_key fst (pd_product_parameters vd) \<and>
                 product_parameters d1 = product_parameters d \<and> parameters d1 = parameters d \<and>
                 parameter_values d1 = parameter_values d) \<or>
                (\<exists>new. rows (product_parameters d1) =
                      filter (\<lambda>r. pp_product_info r \<noteq> pi_id inst) (rows (product_parameters d)) @ new \<and>
                   (\<forall>r \<in> set new. pp_product_info r = pi_id inst) \<and>
                   many (deref_parameter d1) new = Some (pd_product_parameters vd)))"
    proof (cases "sort_key fst old = sort_key fst (pd_product_parameters vd)")
      case True
      then have "fu_product_parameters fu = None"
        by (simp add: fu_def changed_fields_def)
      then have "d1 = d" by (simp add: d1_def)
      then show ?thesis using True pok vok by simp
    next
      case False
      then have "fu_product_parameters fu = Some (pd_product_parameters vd)"
        by (simp add: fu_def changed_fields_def)
      define d0 where "d0 = d\<lparr>product_parameters :=
                 delete_rows (\<lambda>r. pp_product_info r = pi_id inst) (product_parameters d)\<rparr>"
      have d1: "d1 = add_parameters_loop d0 (pi_id inst) (pd_product_parameters vd)"
        using \<open>fu_product_parameters fu = Some (pd_product_parameters vd)\<close>
        by (simp add: d1_def add_parameters_def d0_def)
      have ok0: "table_ok parameter_id (parameters d0)" "table_ok value_id (parameter_values d0)"
        using pok vok by (simp_all add: d0_def)
      note apl = add_parameters_loop_props[OF ok0, of "pi_id inst" "pd_product_parameters vd",
                                           folded d1]
      have "parameter_frame d0 d1" using apl by simp
      then have "product_infos d1 = product_infos d"
        by (simp add: parameter_frame_def d0_def)
      then show ?thesis
        using apl by (simp add: d0_def delete_rows_def)
    qed
    show ?thesis
      using d1p old by (simp add: r)
  qed
  show "p = ?p" using all by simp
  show "product_infos d' = update_rows (\<lambda>r. pi_id r = pi_id inst) (\<lambda>r. p) (product_infos d)"
    using all by simp
  show "table_ok parameter_id (parameters d')" "table_ok value_id (parameter_values d')"
    "table_extends (parameters d) (parameters d')"
    "table_extends (parameter_values d) (parameter_values d')"
    using all by simp_all
  show ?goal7 using all by simp
qed

lemma update_or_create_None:
  "shop_instance d s (pd_external_id vd) = None \<Longrightarrow>
   update_or_create d s vd = serializer_create d s vd"
  by (simp add: update_or_create_def)

lemma serializer_create_as_update_or_create:
  assumes "catalog_ok d" and "serializer_create d s vd = (Inr p, d')"
  shows "update_or_create d s vd = (Inr p, d')"
  using serializer_create_effect(1)[OF assms] assms(2) by (simp add: update_or_create_def)

lemma brief_stable:
  assumes b: "brief_parameters d q = Some old"
      and ip: "instance_parameters d' q = instance_parameters d q"
      and e1: "table_extends (parameters d) (parameters d')"
      and e2: "table_extends (parameter_values d) (parameter_values d')"
  shows "brief_parameters d' q = Some old"
proof -
  have "many (deref_parameter d) (instance_parameters d q) = Some old"
    using b by (simp add: brief_parameters_deref)
  then have "many (deref_parameter d') (instance_parameters d q) = Some old"
    by (rule many_cong_Some) (rule deref_parameter_extends[OF e1 e2])
  then show ?thesis by (simp add: brief_parameters_deref ip)
qed

text \<open>The effect of one successful upsert on the listing of another external id.\<close>

lemma update_or_create_other:
  assumes ok: "catalog_ok d"
      and u: "update_or_create d s vd' = (Inr p, d')"
      and q: "shop_instance d s e = Some q"
      and ne: "pd_external_id vd' \<noteq> e"
  shows "shop_instance d' s e = Some q"
    and "brief_parameters d q = Some old \<Longrightarrow> brief_parameters d' q = Some old"
proof -
  have iok: "table_ok pi_id (product_infos d)"
    and fk: "\<forall>r \<in> set (rows (product_parameters d)). pp_product_info r < next_pk (product_infos d)"
    using ok by (simp_all add: catalog_ok_def)
  note qs = shop_instance_Some[OF q]
  have qlt: "pi_id q < next_pk (product_infos d)"
    using iok qs by (simp add: table_ok_def)
  have both: "shop_instance d' s e = Some q \<and>
              instance_parameters d' q = instance_parameters d q \<and>
              table_extends (parameters d) (parameters d') \<and>
              table_extends (parameter_values d) (parameter_values d')"
  proof (cases "shop_instance d s (pd_external_id vd')")
    case None
    then have c: "serializer_create d s vd' = (Inr p, d')"
      using u by (simp add: update_or_create_None)
    note ef = serializer_create_effect[OF ok c]
    from ef(13) obtain new where new: "rows (product_parameters d') = rows (product_parameters d) @ new"
        "\<forall>r \<in> set new. pp_product_info r = pi_id p" by blast
    have "shop_instance d' s e = Some q"
      using q by (simp add: shop_instance_def ef(8) find_append)
    moreover have "instance_parameters d' q = instance_parameters d q"
      using new qlt ef(2) by (auto simp: instance_parameters_def filter_empty_conv)
    ultimately show ?thesis using ef(11,12) by simp
  next
    case (Some inst)
    note ef = update_effect[OF ok Some u]
    note ins = shop_instance_Some[OF Some]
    have neq: "pi_id q \<noteq> pi_id inst"
    proof
      assume "pi_id q = pi_id inst"
      then have "q = inst"
        using table_ok_inj[OF iok, of q inst] qs ins by simp
      then show False using qs ins ne by simp
    qed
    have cond: "\<forall>y \<in> set (rows (product_infos d)). pi_id y = pi_id inst \<longrightarrow>
                  \<not> (pi_shop y = shop_id s \<and> pi_external_id y = e) \<and>
                  \<not> (pi_shop p = shop_id s \<and> pi_external_id p = e)"
    proof (intro ballI impI)
      fix y assume y: "y \<in> set (rows (product_infos d))" "pi_id y = pi_id inst"
      then have "y = inst"
        using table_ok_inj[OF iok, of y inst] ins by simp
      then show "\<not> (pi_shop y = shop_id s \<and> pi_external_id y = e) \<and>
                 \<not> (pi_shop p = shop_id s \<and> pi_external_id p = e)"
        using ins ne ef(1) by simp
    qed
    have "find (\<lambda>p. pi_shop p = shop_id s \<and> pi_external_id p = e)
            (map (\<lambda>r. if pi_id r = pi_id inst then p else r) (rows (product_infos d))) = Some q"
      by (rule find_update_other[OF q[unfolded shop_instance_def] cond])
    then have si: "shop_instance d' s e = Some q"
      by (simp add: shop_instance_def ef(2) update_rows_def)
    have fc: "filter (\<lambda>x. pp_product_info x \<noteq> pi_id inst \<and> pp_product_info x = pi_id q) xs =
              filter (\<lambda>r. pp_product_info r = pi_id q) xs" for xs
      using neq by (intro filter_cong) auto
    from ef(7) have "instance_parameters d' q = instance_parameters d q"
      using neq fc by (auto simp: instance_parameters_def filter_empty_conv)
    then show ?thesis using si ef(5,6) by simp
  qed
  show "shop_instance d' s e = Some q" using both by simp
  show "brief_parameters d q = Some old \<Longrightarrow> brief_parameters d' q = Some old"
    using brief_stable both by blast
qed

lemma update_or_create_preserves_match:
  assumes ok: "catalog_ok d"
      and u: "update_or_create d s vd' = (Inr p, d')"
      and ne: "pd_external_id vd' \<noteq> pd_external_id vd"
  shows "fields_match d s vd \<Longrightarrow> fields_match d' s vd"
    and "parameters_match d s vd \<Longrightarrow> parameters_match d' s vd"
proof -
  show "fields_match d s vd \<Longrightarrow> fields_match d' s vd"
    using update_or_create_other(1)[OF ok u _ ne]
    by (auto simp: fields_match_def split: option.splits)
  show "parameters_match d s vd \<Longrightarrow> parameters_match d' s vd"
    using update_or_create_other[OF ok u _ ne]
    by (fastforce simp: parameters_match_def split: option.splits)
qed

lemma update_or_create_establishes:
  assumes ok: "catalog_ok d"
      and u: "update_or_create d s vd = (Inr p, d')"
  shows "catalog_ok d'" and "fields_match d' s vd" and "parameters_match d' s vd"
    and "shop_instance d' s (pd_external_id vd) = Some p"
proof -
  have iok: "table_ok pi_id (product_infos d)"
    and fk: "\<forall>r \<in> set (rows (product_parameters d)). pp_product_info r < next_pk (product_infos d)"
    using ok by (simp_all add: catalog_ok_def)
  have all: "catalog_ok d' \<and> shop_instance d' s (pd_external_id vd) = Some p \<and>
             pi_quantity p = pd_quantity vd \<and> pi_price p = pd_price vd \<and>
             pi_price_rrc p = pd_price_rrc vd \<and>
             (\<exists>old. brief_parameters d' p = Some old \<and>
                    sort_key fst old = sort_key fst (pd_product_parameters vd))"
  proof (cases "shop_instance d s (pd_external_id vd)")
    case None
    then have c: "serializer_create d s vd = (Inr p, d')"
      using u by (simp add: update_or_create_None)
    note ef = serializer_create_effect[OF ok c]
    from ef(13) obtain new where new: "rows (product_parameters d') = rows (product_parameters d) @ new"
        "\<forall>r \<in> set new. pp_product_info r = pi_id p"
        "many (deref_parameter d') new = Some (pd_product_parameters vd)" by blast
    have iok': "table_ok pi_id (product_infos d')"
      using iok ef(2) by (auto simp: ef(8) table_ok_def less_Suc_eq)
    have fk': "\<forall>r \<in> set (rows (product_parameters d')). pp_product_info r < next_pk (product_infos d')"
      using fk new ef(2) by (auto simp: ef(8) less_Suc_eq)
    have ok': "catalog_ok d'"
      using iok' fk' ef(9,10) by (simp add: catalog_ok_def)
    have si: "shop_instance d' s (pd_external_id vd) = Some p"
      using None ef(3,4) by (simp add: shop_instance_def ef(8) find_append)
    have "filter (\<lambda>r. pp_product_info r = pi_id p) (rows (product_parameters d)) = []"
      using fk ef(2) by (auto simp: filter_empty_conv)
    then have "instance_parameters d' p = new"
      using new by (simp add: instance_parameters_def)
    then have "brief_parameters d' p = Some (pd_product_parameters vd)"
      using new(3) by (simp add: brief_parameters_deref)
    then show ?thesis using ok' si ef(5,6,7) by simp
  next
    case (Some inst)
    note ef = update_effect[OF ok Some u]
    note ins = shop_instance_Some[OF Some]
    have pid: "pi_id p = pi_id inst" "pi_shop p = shop_id s" "pi_external_id p = pd_external_id vd"
      using ef(1) ins by simp_all
    have iok': "table_ok pi_id (product_infos d')"
      unfolding ef(2) by (rule table_ok_update_rows[OF iok]) (simp add: pid)
    have lt: "pi_id inst < next_pk (product_infos d)"
      using iok ins by (simp add: table_ok_def)
    have np: "next_pk (product_infos d') = next_pk (product_infos d)"
      by (simp add: ef(2) update_rows_def)
    have fk': "\<forall>r \<in> set (rows (product_parameters d')). pp_product_info r < next_pk (product_infos d')"
      using ef(7) fk lt np by auto
    have ok': "catalog_ok d'"
      using iok' fk' ef(3,4) by (simp add: catalog_ok_def)
    have uniq: "\<forall>y \<in> set (rows (product_infos d)). pi_id y = pi_id inst \<longrightarrow> y = inst"
      using table_ok_inj[OF iok _ ins[THEN conjunct1]] by blast
    have "find (\<lambda>p. pi_shop p = shop_id s \<and> pi_external_id p = pd_external_id vd)
            (map (\<lambda>r. if pi_id r = pi_id inst then p else r) (rows (product_infos d))) = Some p"
      by (rule find_update_same[OF Some[unfolded shop_instance_def] uniq]) (simp_all add: pid)
    then have si: "shop_instance d' s (pd_external_id vd) = Some p"
      by (simp add: shop_instance_def ef(2) update_rows_def)
    from ef(7) obtain old where old: "brief_parameters d inst = Some old"
      and alt: "(sort_key fst old = sort_key fst (pd_product_parameters vd) \<and>
             product_parameters d' = product_parameters d \<and> parameters d' = parameters d \<and>
             parameter_values d' = parameter_values d) \<or>
            (\<exists>new. rows (product_parameters d') =
                      filter (\<lambda>r. pp_product_info r \<noteq> pi_id inst) (rows (product_parameters d)) @ new \<and>
                   (\<forall>r \<in> set new. pp_product_info r = pi_id inst) \<and>
                   many (deref_parameter d') new = Some (pd_product_parameters vd))"
      by blast
    have "\<exists>old. brief_parameters d' p = Some old \<and>
                sort_key fst old = sort_key fst (pd_product_parameters vd)"
      using alt
    proof
      assume a: "sort_key fst old = sort_key fst (pd_product_parameters vd) \<and>
             product_parameters d' = product_parameters d \<and> parameters d' = parameters d \<and>
             parameter_values d' = parameter_values d"
      then have "instance_parameters d' p = instance_parameters d inst"
        by (simp add: instance_parameters_def pid)
      moreover have "deref_parameter d' = deref_parameter d"
        using a by (intro ext) (simp add: deref_parameter_def str_parameter_def str_value_def)
      ultimately have "brief_parameters d' p = Some old"
        using old by (simp add: brief_parameters_deref)
      then show ?thesis using a by simp
    next
      assume "\<exists>new. rows (product_parameters d') =
                      filter (\<lambda>r. pp_product_info r \<noteq> pi_id inst) (rows (product_parameters d)) @ new \<and>
                   (\<forall>r \<in> set new. pp_product_info r = pi_id inst) \<and>
                   many (deref_parameter d') new = Some (pd_product_parameters vd)"
      then obtain new where new: "rows (product_parameters d') =
                      filter (\<lambda>r. pp_product_info r \<noteq> pi_id inst) (rows (product_parameters d)) @ new"
          "\<forall>r \<in> set new. pp_product_info r = pi_id inst"
          "many (deref_parameter d') new = Some (pd_product_parameters vd)" by blast
      have "instance_parameters d' p = new"
        using new(1,2) by (auto simp: instance_parameters_def pid filter_empty_conv)
      then show ?thesis using new(3) by (simp add: brief_parameters_deref)
    qed
    then show ?thesis using ok' si ef(1) by simp
  qed
  show "catalog_ok d'" using all by simp
  show "shop_instance d' s (pd_external_id vd) = Some p" using all by simp
  show "fields_match d' s vd" using all by (simp add: fields_match_def)
  show "parameters_match d' s vd" using all by (auto simp: parameters_match_def)
qed

section \<open>The upsert loop of a re-import\<close>

lemma build_product_data_fields:
  assumes "build_product_data cs cats g = Inr pd"
  shows "ps_id g = Some (pd_external_id pd)" and "ps_quantity g = Some (pd_quantity pd)"
    and "ps_price g = Some (pd_price pd)" and "ps_price_rrc g = Some (pd_price_rrc pd)"
    and "ps_parameters g = Some (pd_product_parameters pd)"
    and "ps_name g = Some (pd_product_name pd)"
    and "Option.bind (ps_category g) cats = Some (pd_category pd)"
  using assms by (auto simp: build_product_data_def split: option.splits)

lemma is_valid_fields:
  assumes "is_valid d NoContext pd = Inr vd"
  shows "pd_external_id vd = pd_external_id pd" and "pd_quantity vd = pd_quantity pd"
    and "pd_price vd = pd_price pd" and "pd_price_rrc vd = pd_price_rrc pd"
    and "many ProductParameterSerializer (pd_product_parameters pd) = Some (pd_product_parameters vd)"
    and "CharField None (pd_product_name pd) = Some (pd_product_name vd)"
    and "PartnerCategorySerializer (pd_category pd) = Some (pd_category vd)"
  using assms
  by (auto simp: is_valid_def validated_data_def field_external_id_def ExternalIdField_def
        validate_external_id_def PositiveIntegerField_def IntegerField_def bind_eq_Some_conv
      split: option.splits if_splits)

lemma validate_products_from_source:
  "validate_products d cs cats goods = Inr vds \<Longrightarrow> list_all2 from_source goods vds"
proof (induction goods arbitrary: vds)
  case Nil
  then show ?case by simp
next
  case (Cons g goods)
  from Cons.prems obtain pd vd rest where
    b: "build_product_data cs cats g = Inr pd" and v: "is_valid d NoContext pd = Inr vd"
    and r: "validate_products d cs cats goods = Inr rest" and e: "vds = vd # rest"
    by (auto split: sum.splits)
  have "from_source g vd"
    using build_product_data_fields[OF b] is_valid_fields[OF v]
    by (simp add: from_source_def)
  then show ?case
    using Cons.IH[OF r] e by simp
qed


lemma kept_except_refl: "kept_except sid E xs xs"
  unfolding kept_except_def
  by (rule exI[of _ xs], rule exI[of _ "[]"]) (simp add: list_all2_same same_listing_def)

lemma kept_except_append: "kept_except sid E xs (xs @ extra)"
  unfolding kept_except_def
  by (rule exI[of _ xs], rule exI[of _ extra]) (simp add: list_all2_same same_listing_def)

lemma kept_except_trans:
  assumes "kept_except sid E1 xs ys" and "kept_except sid E2 ys zs"
  shows "kept_except sid (E1 \<union> E2) xs zs"
proof -
  let ?R = "\<lambda>E q q'. same_listing q q' \<and> (pi_shop q = sid \<and> pi_external_id q \<in> E \<or> q' = q)"
  from assms(1) obtain k1 m1 where ys: "ys = k1 @ m1" and a1: "list_all2 (?R E1) xs k1"
    by (auto simp: kept_except_def)
  from assms(2) obtain k2 m2 where zs: "zs = k2 @ m2" and a2: "list_all2 (?R E2) (k1 @ m1) k2"
    by (auto simp: kept_except_def ys)
  from a2 obtain k2a k2b where k2: "k2 = k2a @ k2b" and a2a: "list_all2 (?R E2) k1 k2a"
    by (auto simp: list_all2_append1)
  have "list_all2 (?R (E1 \<union> E2)) xs k2a"
    using a1 a2a
    by (rule list_all2_trans[rotated]) (auto simp: same_listing_def)
  then show ?thesis
    unfolding kept_except_def using zs k2 by (intro exI[of _ k2a] exI[of _ "k2b @ m2"]) simp
qed

lemma kept_except_mono:
  "kept_except sid E xs ys \<Longrightarrow> E \<subseteq> E' \<Longrightarrow> kept_except sid E' xs ys"
  unfolding kept_except_def
  by (elim exE conjE, intro exI conjI, assumption, erule list_all2_mono) auto

lemma update_or_create_kept:
  assumes ok: "catalog_ok d" and u: "update_or_create d s vd = (Inr p, d')"
  shows "kept_except (shop_id s) {pd_external_id vd}
           (rows (product_infos d)) (rows (product_infos d'))"
proof (cases "shop_instance d s (pd_external_id vd)")
  case None
  then have c: "serializer_create d s vd = (Inr p, d')"
    using u by (simp add: update_or_create_None)
  show ?thesis
    using serializer_create_effect(8)[OF ok c] by (simp add: kept_except_append)
next
  case (Some inst)
  note eff = update_effect(1,2)[OF ok Some u]
  have inst: "inst \<in> set (rows (product_infos d))" "pi_shop inst = shop_id s"
             "pi_external_id inst = pd_external_id vd"
    using shop_instance_Some[OF Some] by simp_all
  have tk: "table_ok pi_id (product_infos d)"
    using ok by (simp add: catalog_ok_def)
  have "list_all2 (\<lambda>q q'. same_listing q q' \<and>
            (pi_shop q = shop_id s \<and> pi_external_id q \<in> {pd_external_id vd} \<or> q' = q))
          (rows (product_infos d))
          (map (\<lambda>r. if pi_id r = pi_id inst then p else r) (rows (product_infos d)))"
    unfolding list_all2_map2 list_all2_same
  proof
    fix x assume x: "x \<in> set (rows (product_infos d))"
    show "same_listing x (if pi_id x = pi_id inst then p else x) \<and>
          (pi_shop x = shop_id s \<and> pi_external_id x \<in> {pd_external_id vd} \<or>
           (if pi_id x = pi_id inst then p else x) = x)"
    proof (cases "pi_id x = pi_id inst")
      case True
      then have "x = inst" using table_ok_inj[OF tk x inst(1)] by simp
      then show ?thesis using True inst eff(1) by (simp add: same_listing_def)
    next
      case False
      then show ?thesis by (simp add: same_listing_def)
    qed
  qed
  then show ?thesis
    unfolding kept_except_def eff(2) update_rows_def
    by (intro exI[of _ "map (\<lambda>r. if pi_id r = pi_id inst then p else r) (rows (product_infos d))"]
              exI[of _ "[]"]) simp
qed

lemma update_or_create_all_keeps_match:
  assumes "catalog_ok d" and "update_or_create_all d s vds = (None, d')"
      and "\<forall>h \<in> set vds. pd_external_id h \<noteq> pd_external_id vd"
  shows "(fields_match d s vd \<longrightarrow> fields_match d' s vd) \<and>
         (parameters_match d s vd \<longrightarrow> parameters_match d' s vd)"
  using assms
proof (induction vds arbitrary: d)
  case Nil
  then show ?case by simp
next
  case (Cons h vds)
  from Cons.prems(2) obtain p d1 where
    u: "update_or_create d s h = (Inr p, d1)" and r: "update_or_create_all d1 s vds = (None, d')"
    by (auto split: prod.splits sum.splits)
  have ne: "pd_external_id h \<noteq> pd_external_id vd" using Cons.prems(3) by simp
  have ok1: "catalog_ok d1" using update_or_create_establishes(1)[OF Cons.prems(1) u] .
  have IH: "(fields_match d1 s vd \<longrightarrow> fields_match d' s vd) \<and>
            (parameters_match d1 s vd \<longrightarrow> parameters_match d' s vd)"
    using Cons.IH[OF ok1 r] Cons.prems(3) by simp
  show ?case
    using update_or_create_preserves_match[OF Cons.prems(1) u ne] IH by blast
qed

lemma update_or_create_all_props:
  assumes "catalog_ok d" and "update_or_create_all d s vds = (None, d')"
  shows "catalog_ok d' \<and>
         kept_except (shop_id s) (set (map pd_external_id vds))
           (rows (product_infos d)) (rows (product_infos d')) \<and>
         (\<forall>pre vd post. vds = pre @ vd # post \<and>
            (\<forall>h \<in> set post. pd_external_id h \<noteq> pd_external_id vd) \<longrightarrow>
            fields_match d' s vd \<and> parameters_match d' s vd)"
  using assms
proof (induction vds arbitrary: d)
  case Nil
  then show ?case by (simp add: kept_except_refl)
next
  case (Cons h vds)
  from Cons.prems(2) obtain p d1 where
    u: "update_or_create d s h = (Inr p, d1)" and r: "update_or_create_all d1 s vds = (None, d')"
    by (auto split: prod.splits sum.splits)
  note est = update_or_create_establishes[OF Cons.prems(1) u]
  note IH = Cons.IH[OF est(1) r]
  have k: "kept_except (shop_id s) (set (map pd_external_id (h # vds)))
             (rows (product_infos d)) (rows (product_infos d'))"
    using kept_except_trans[OF update_or_create_kept[OF Cons.prems(1) u] conjunct1[OF conjunct2[OF IH]]]
    by simp
  have m: "fields_match d' s vd \<and> parameters_match d' s vd"
    if "h # vds = pre @ vd # post" "\<forall>x \<in> set post. pd_external_id x \<noteq> pd_external_id vd"
    for pre vd post
  proof (cases pre)
    case Nil
    then have e: "vd = h" "post = vds" using that(1) by simp_all
    show ?thesis
      using update_or_create_all_keeps_match[OF est(1) r, of vd] that(2) est(2,3) e by simp
  next
    case (Cons a pre')
    then have "vds = pre' @ vd # post" using that(1) by simp
    then show ?thesis using IH that(2) by blast
  qed
  show ?case using IH k m by blast
qed

lemma catalog_ok_zero_absent:
  assumes "catalog_ok d"
  shows "catalog_ok (zero_absent d s vds)"
proof -
  have "table_ok pi_id (update_rows (\<lambda>p. pi_shop p = shop_id s \<and>
                          pi_external_id p \<notin> set (map pd_external_id vds))
                     (\<lambda>p. p\<lparr>pi_quantity := 0\<rparr>) (product_infos d))"
    using assms by (intro table_ok_update_rows) (simp_all add: catalog_ok_def)
  then show ?thesis
    using assms by (simp add: catalog_ok_def zero_absent_def update_rows_def)
qed

lemma validate_products_not_StatusOk:
  "validate_products d cs cats goods \<noteq> Inl (StatusOk sid)"
  by (induction goods)
     (auto simp: build_product_data_def split: sum.splits option.splits)


lemma kept_except_listings_kept:
  assumes "kept_except sid E xs (rows t')" and "list_all2 same_listing (rows t) xs"
  shows "listings_kept t t'"
proof -
  from assms(1) obtain kept extra where r: "rows t' = kept @ extra"
    and a: "list_all2 (\<lambda>q q'. same_listing q q' \<and> (pi_shop q = sid \<and> pi_external_id q \<in> E \<or> q' = q)) xs kept"
    by (auto simp: kept_except_def)
  have "list_all2 same_listing (rows t) kept"
    using assms(2) a by (rule list_all2_trans[rotated]) (auto simp: same_listing_def)
  moreover then have "length (rows t) = length kept"
    by (rule list_all2_lengthD)
  ultimately show ?thesis
    by (simp add: listings_kept_def r)
qed

lemma kept_except_unchanged:
  assumes "kept_except sid E xs ys" and "x \<in> set xs"
      and "\<not> (pi_shop x = sid \<and> pi_external_id x \<in> E)"
  shows "x \<in> set ys"
proof -
  from assms(1) obtain kept extra where r: "ys = kept @ extra"
    and a: "list_all2 (\<lambda>q q'. same_listing q q' \<and> (pi_shop q = sid \<and> pi_external_id q \<in> E \<or> q' = q)) xs kept"
    by (auto simp: kept_except_def)
  from assms(2) obtain n where n: "n < length xs" "xs ! n = x"
    by (auto simp: in_set_conv_nth)
  have "kept ! n = x"
    using list_all2_nthD[OF a n(1)] n(2) assms(3) by auto
  moreover have "n < length kept"
    using n(1) list_all2_lengthD[OF a] by simp
  ultimately show ?thesis
    unfolding r by (auto simp: in_set_conv_nth nth_append intro!: exI[of _ n])
qed

lemma from_source_last:
  assumes "list_all2 from_source (pre @ g # post) vds"
      and "\<forall>h \<in> set post. ps_id h \<noteq> ps_id g"
  shows "\<exists>pre' vd post'. vds = pre' @ vd # post' \<and> from_source g vd \<and>
           (\<forall>h \<in> set post'. pd_external_id h \<noteq> pd_external_id vd)"
proof -
  from assms(1) obtain pre' rest where v1: "vds = pre' @ rest" and
    r: "list_all2 from_source (g # post) rest"
    by (auto simp: list_all2_append1)
  from r obtain vd post' where v2: "rest = vd # post'" and g: "from_source g vd"
    and p: "list_all2 from_source post post'"
    by (auto simp: list_all2_Cons1)
  have "pd_external_id h \<noteq> pd_external_id vd" if "h \<in> set post'" for h
  proof -
    from that obtain n where n: "n < length post'" "post' ! n = h"
      by (auto simp: in_set_conv_nth)
    have len: "length post = length post'" using p by (rule list_all2_lengthD)
    have "from_source (post ! n) h"
      using list_all2_nthD2[OF p n(1)] n(2) by simp
    moreover have "post ! n \<in> set post" using n(1) len by simp
    ultimately show ?thesis
      using assms(2) g by (auto simp: from_source_def)
  qed
  then show ?thesis using v1 v2 g by blast
qed

lemma matches_upserted:
  assumes "from_source g vd" and "fields_match d s vd" and "parameters_match d s vd"
  shows "upserted d s g"
  using assms
  by (auto simp: from_source_def fields_match_def parameters_match_def upserted_def
      split: option.splits)

lemma create_all_as_update_or_create_all:
  assumes "catalog_ok d" and "create_all d s vds = (None, d')"
  shows "update_or_create_all d s vds = (None, d')"
  using assms
proof (induction vds arbitrary: d)
  case Nil
  then show ?case by simp
next
  case (Cons vd vds)
  from Cons.prems(2) obtain p d1 where
    c: "serializer_create d s vd = (Inr p, d1)" and r: "create_all d1 s vds = (None, d')"
    by (auto split: prod.splits sum.splits)
  have u: "update_or_create d s vd = (Inr p, d1)"
    using serializer_create_as_update_or_create[OF Cons.prems(1) c] .
  have ok1: "catalog_ok d1"
    using update_or_create_establishes(1)[OF Cons.prems(1) u] .
  show ?case
    using Cons.IH[OF ok1 r] u by simp
qed

lemma same_upsert_match:
  assumes "same_upsert a b" and "fields_match d s a" and "parameters_match d s a"
  shows "fields_match d s b \<and> parameters_match d s b"
  using assms
  by (auto simp: same_upsert_def fields_match_def parameters_match_def split: option.splits)

lemma update_or_create_all_all_match:
  assumes ok: "catalog_ok d" and loop: "update_or_create_all d s vds = (None, d')"
      and cons: "\<forall>a \<in> set vds. \<forall>b \<in> set vds.
                   pd_external_id a = pd_external_id b \<longrightarrow> same_upsert a b"
      and vd: "vd \<in> set vds"
  shows "fields_match d' s vd \<and> parameters_match d' s vd"
proof -
  have "\<exists>x \<in> set vds. pd_external_id x = pd_external_id vd"
    using vd by blast
  from split_list_last_prop[OF this] obtain pre x post where
    v: "vds = pre @ x # post" and x: "pd_external_id x = pd_external_id vd"
    and l: "\<forall>h \<in> set post. pd_external_id h \<noteq> pd_external_id vd"
    by blast
  have "fields_match d' s x \<and> parameters_match d' s x"
    using update_or_create_all_props[OF ok loop] v l x by metis
  moreover have "x \<in> set vds"
    using v by simp
  then have "same_upsert x vd"
    using cons x vd by blast
  ultimately show ?thesis
    using same_upsert_match by blast
qed

lemma update_or_create_match:
  assumes "fields_match d s vd" and "parameters_match d s vd"
  shows "\<exists>inst. update_or_create d s vd = (Inr inst, d)"
  using assms
  by (auto simp: fields_match_def parameters_match_def update_or_create_def
        changed_fields_no_fields
      split: option.splits)

lemma update_or_create_all_match:
  assumes "\<forall>vd \<in> set vds. fields_match d s vd \<and> parameters_match d s vd"
  shows "update_or_create_all d s vds = (None, d)"
  using assms
proof (induction vds)
  case Nil
  then show ?case by simp
next
  case (Cons vd vds)
  from Cons.prems obtain inst where "update_or_create d s vd = (Inr inst, d)"
    using update_or_create_match[of d s vd] by auto
  then show ?case using Cons by simp
qed

lemma update_or_create_rows_origin:
  assumes ok: "catalog_ok d" and u: "update_or_create d s vd = (Inr p, d')"
      and r: "r \<in> set (rows (product_infos d'))"
  shows "(pi_shop r = shop_id s \<and> pi_external_id r = pd_external_id vd) \<or>
         r \<in> set (rows (product_infos d))"
proof (cases "shop_instance d s (pd_external_id vd)")
  case None
  then have c: "serializer_create d s vd = (Inr p, d')"
    using u by (simp add: update_or_create_None)
  show ?thesis
    using serializer_create_effect(3,4,8)[OF ok c] r by auto
next
  case (Some inst)
  note eff = update_effect(1,2)[OF ok Some u]
  show ?thesis
    using r shop_instance_Some[OF Some] unfolding eff(2) update_rows_def
    by (auto simp: eff(1) split: if_splits)
qed

lemma update_or_create_all_rows_origin:
  assumes "catalog_ok d" and "update_or_create_all d s vds = (None, d')"
      and "r \<in> set (rows (product_infos d'))"
  shows "(pi_shop r = shop_id s \<and> pi_external_id r \<in> set (map pd_external_id vds)) \<or>
         r \<in> set (rows (product_infos d))"
  using assms
proof (induction vds arbitrary: d)
  case Nil
  then show ?case by simp
next
  case (Cons vd vds)
  from Cons.prems(2) obtain p d1 where
    u: "update_or_create d s vd = (Inr p, d1)" and l: "update_or_create_all d1 s vds = (None, d')"
    by (auto split: prod.splits sum.splits)
  have ok1: "catalog_ok d1"
    using update_or_create_establishes(1)[OF Cons.prems(1) u] .
  from Cons.IH[OF ok1 l Cons.prems(3)]
  show ?case
    using update_or_create_rows_origin[OF Cons.prems(1) u, of r] by auto
qed

lemma zero_absent_noop:
  assumes "\<forall>p \<in> set (rows (product_infos d)).
             pi_shop p = shop_id s \<and> pi_external_id p \<notin> set (map pd_external_id vds) \<longrightarrow>
             pi_quantity p = 0"
  shows "zero_absent d s vds = d"
proof -
  have "map (\<lambda>p. if pi_shop p = shop_id s \<and> pi_external_id p \<notin> set (map pd_external_id vds)
                  then p\<lparr>pi_quantity := 0\<rparr> else p) (rows (product_infos d)) =
        rows (product_infos d)"
    using assms by (intro map_idI) auto
  then show ?thesis
    by (simp add: zero_absent_def update_rows_def)
qed

lemma import_run_shape:
  assumes "import_products d u e jd = (StatusOk sid, d1)"
  shows "\<exists>n cs cats goods s created d0 vds.
     parse_json_data jd = Inr (n, cs, cats, goods) \<and>
     Shop_get_or_create d u n (case jd_email jd of None \<Rightarrow> e | Some x \<Rightarrow> x)
       (case jd_shipping_price jd of None \<Rightarrow> 300 | Some p \<Rightarrow> p) = Inr (s, created, d0) \<and>
     validate_products d0 cs cats goods = Inr vds \<and>
     write_product_infos d0 s created vds = (None, d1) \<and> sid = shop_id s"
  using assms validate_products_not_StatusOk[of _ _ _ _ sid]
  by (auto simp: import_products_def Let_def split: sum.splits prod.splits option.splits)

lemma Shop_get_or_create_result:
  assumes g: "Shop_get_or_create d u n e b = Inr (s, created, d0)"
  shows "users_shop d0 u = Some s" and "d0\<lparr>shops := shops d\<rparr> = d"
    and "created \<longrightarrow> shop_id s = next_pk (shops d)" and "\<not> created \<longrightarrow> d0 = d"
proof -
  show "d0\<lparr>shops := shops d\<rparr> = d"
    using g by (auto simp: Shop_get_or_create_def insert_row_def split: option.splits if_splits)
  show "users_shop d0 u = Some s" "created \<longrightarrow> shop_id s = next_pk (shops d)"
       "\<not> created \<longrightarrow> d0 = d"
  proof (atomize (full), cases "users_shop d u")
    case None
    from Shop_get_or_create_new[OF None g]
    show "users_shop d0 u = Some s \<and> (created \<longrightarrow> shop_id s = next_pk (shops d)) \<and>
          (\<not> created \<longrightarrow> d0 = d)"
      by simp
  next
    case (Some s')
    from Shop_get_or_create_existing[OF Some, of n e b] g
    show "users_shop d0 u = Some s \<and> (created \<longrightarrow> shop_id s = next_pk (shops d)) \<and>
          (\<not> created \<longrightarrow> d0 = d)"
      using Some by simp
  qed
qed

lemma parse_json_data_goods:
  "parse_json_data jd = Inr (n, cs, cats, goods) \<Longrightarrow> jd_goods jd = Some goods"
  by (auto simp: parse_json_data_def split: option.splits sum.splits)

lemma consistent_validated:
  assumes fs: "list_all2 from_source goods vds"
      and c: "\<forall>g \<in> set goods. \<forall>h \<in> set goods. ps_id g = ps_id h \<longrightarrow> agree g h"
  shows "\<forall>a \<in> set vds. \<forall>b \<in> set vds. pd_external_id a = pd_external_id b \<longrightarrow> same_upsert a b"
proof (intro ballI impI)
  fix a b assume a: "a \<in> set vds" and b: "b \<in> set vds"
    and e: "pd_external_id a = pd_external_id b"
  have src: "\<exists>g \<in> set goods. from_source g x" if "x \<in> set vds" for x
  proof -
    from that obtain n where n: "n < length vds" "vds ! n = x"
      by (auto simp: in_set_conv_nth)
    have "from_source (goods ! n) x"
      using list_all2_nthD2[OF fs n(1)] n(2) by simp
    moreover have "goods ! n \<in> set goods"
      using n(1) list_all2_lengthD[OF fs] by simp
    ultimately show ?thesis by blast
  qed
  from src[OF a] obtain g where g: "g \<in> set goods" "from_source g a" by blast
  from src[OF b] obtain h where h: "h \<in> set goods" "from_source h b" by blast
  have "ps_id g = ps_id h"
    using g(2) h(2) e by (simp add: from_source_def)
  then have "agree g h" using c g(1) h(1) by blast
  then show "same_upsert a b"
    using g(2) h(2) e by (simp add: agree_def from_source_def same_upsert_def)
qed

lemma write_product_infos_again:
  assumes ok: "catalog_ok d0"
      and w: "write_product_infos d0 s created vds = (None, d1)"
      and none: "created \<longrightarrow> \<not> shop_has_product_infos d0 s"
      and cons: "\<forall>a \<in> set vds. \<forall>b \<in> set vds.
                   pd_external_id a = pd_external_id b \<longrightarrow> same_upsert a b"
  shows "write_product_infos d1 s False vds = (None, d1)"
proof -
  define dz where "dz = (if created \<or> \<not> shop_has_product_infos d0 s then d0
                         else zero_absent d0 s vds)"
  have okz: "catalog_ok dz"
    using ok catalog_ok_zero_absent[OF ok] by (simp add: dz_def)
  have loop: "update_or_create_all dz s vds = (None, d1)"
  proof (cases "created \<or> \<not> shop_has_product_infos d0 s")
    case True
    then have "create_all d0 s vds = (None, d1)"
      using w by (simp add: write_product_infos_def)
    from create_all_as_update_or_create_all[OF ok this] True
    show ?thesis by (simp add: dz_def)
  next
    case False
    then show ?thesis using w by (simp add: write_product_infos_def dz_def)
  qed
  have match: "\<forall>vd \<in> set vds. fields_match d1 s vd \<and> parameters_match d1 s vd"
    using update_or_create_all_all_match[OF okz loop cons] by blast
  have zero: "pi_quantity p = 0"
    if p: "p \<in> set (rows (product_infos d1))" and sh: "pi_shop p = shop_id s"
       and ab: "pi_external_id p \<notin> set (map pd_external_id vds)" for p
  proof -
    have pz: "p \<in> set (rows (product_infos dz))"
      using update_or_create_all_rows_origin[OF okz loop p] sh ab by blast
    show ?thesis
    proof (cases "created \<or> \<not> shop_has_product_infos d0 s")
      case True
      then have "\<not> shop_has_product_infos d0 s" using none by blast
      moreover have "p \<in> set (rows (product_infos d0))"
        using pz True by (simp add: dz_def)
      ultimately show ?thesis
        using sh by (auto simp: shop_has_product_infos_def)
    next
      case False
      then have "p \<in> set (rows (product_infos (zero_absent d0 s vds)))"
        using pz by (simp add: dz_def)
      then obtain q where q: "q \<in> set (rows (product_infos d0))"
        and pq: "p = (if pi_shop q = shop_id s \<and>
                         pi_external_id q \<notin> set (map pd_external_id vds)
                      then q\<lparr>pi_quantity := 0\<rparr> else q)"
        by (auto simp: zero_absent_def update_rows_def)
      show ?thesis
        using pq sh ab by (cases "pi_shop q = shop_id s \<and>
                         pi_external_id q \<notin> set (map pd_external_id vds)") auto
    qed
  qed
  have z: "zero_absent d1 s vds = d1"
    using zero by (intro zero_absent_noop) blast
  have again: "update_or_create_all d1 s vds = (None, d1)"
    using match by (rule update_or_create_all_match)
  show ?thesis
  proof (cases vds)
    case Nil
    then show ?thesis using z by (simp add: write_product_infos_def)
  next
    case (Cons vd rest)
    then have "fields_match d1 s vd" using match by simp
    then obtain p where "shop_instance d1 s (pd_external_id vd) = Some p"
      by (auto simp: fields_match_def split: option.splits)
    from shop_instance_Some[OF this] have "shop_has_product_infos d1 s"
      by (auto simp: shop_has_product_infos_def)
    then show ?thesis
      using again by (simp add: write_product_infos_def z)
  qed
qed

lemma update_or_create_decisions:
  assumes si: "shop_instance d0 s0 (pd_external_id vd) = Some inst"
      and br: "brief_parameters d0 inst = Some old"
  shows "fst (update_or_create d0 s0 vd) =
           Inr (inst\<lparr>pi_quantity := pd_quantity vd, pi_price := pd_price vd,
                     pi_price_rrc := pd_price_rrc vd\<rparr>)"
    and "pi_quantity inst = pd_quantity vd \<and> pi_price inst = pd_price vd \<and>
         pi_price_rrc inst = pd_price_rrc vd \<and>
         sort_key fst old = sort_key fst (pd_product_parameters vd) \<Longrightarrow>
         update_or_create d0 s0 vd = (Inr inst, d0)"
    and "sort_key fst old = sort_key fst (pd_product_parameters vd) \<Longrightarrow>
         product_parameters (snd (update_or_create d0 s0 vd)) = product_parameters d0 \<and>
         parameters (snd (update_or_create d0 s0 vd)) = parameters d0 \<and>
         parameter_values (snd (update_or_create d0 s0 vd)) = parameter_values d0"
proof -
  show "fst (update_or_create d0 s0 vd) =
           Inr (inst\<lparr>pi_quantity := pd_quantity vd, pi_price := pd_price vd,
                     pi_price_rrc := pd_price_rrc vd\<rparr>)"
  proof (cases "changed_fields inst old vd = no_fields")
    case True
    then show ?thesis
      using si br by (simp add: update_or_create_def changed_fields_no_fields)
  next
    case False
    then show ?thesis
      using si br changed_fields_instance[of inst old vd]
      by (simp add: update_or_create_def serializer_update_def Let_def)
  qed
  show "update_or_create d0 s0 vd = (Inr inst, d0)"
    if "pi_quantity inst = pd_quantity vd \<and> pi_price inst = pd_price vd \<and>
         pi_price_rrc inst = pd_price_rrc vd \<and>
         sort_key fst old = sort_key fst (pd_product_parameters vd)"
    using that si br by (simp add: update_or_create_def changed_fields_no_fields)
  show "product_parameters (snd (update_or_create d0 s0 vd)) = product_parameters d0 \<and>
         parameters (snd (update_or_create d0 s0 vd)) = parameters d0 \<and>
         parameter_values (snd (update_or_create d0 s0 vd)) = parameter_values d0"
    if "sort_key fst old = sort_key fst (pd_product_parameters vd)"
    using that si br
    by (simp add: update_or_create_def serializer_update_def Let_def changed_fields_def)
qed

section \<open>The shop of an import (C10)\<close>

text \<open>
  C10. A run that passes the parse step and is not refused for an occupied shop name, by
  an owner who has no shop, appends one Shop row for that owner: its email is the owner's
  own email when the payload has no \<open>email\<close> key, and its base shipping price is 300
  when the payload has no \<open>shipping_price\<close> key. A run by an owner who already has a
  shop leaves the Shop table as it was, whatever name, email and shipping price the
  payload carries.
\<close>

theorem import_shop_defaults_and_reimport:
  assumes run: "import_products d u e jd = (r, d')"
  shows "(users_shop d u = None \<and> (\<forall>f. r \<noteq> ParseError f) \<and> (\<forall>n. r \<noteq> ShopNameOccupied n) \<longrightarrow>
            (\<exists>s. users_shop d' u = Some s \<and> rows (shops d') = rows (shops d) @ [s] \<and>
                 (jd_email jd = None \<longrightarrow> shop_email s = e) \<and>
                 (jd_shipping_price jd = None \<longrightarrow> shop_base_shipping_price s = 300)))
         \<and> (users_shop d u \<noteq> None \<longrightarrow> shops d' = shops d)"
proof (cases "parse_json_data jd")
  case (Inl f)
  with run show ?thesis by (auto simp: import_products_def)
next
  case (Inr t)
  then obtain n cs cats goods where p: "parse_json_data jd = Inr (n, cs, cats, goods)"
    by (cases t) auto
  define em where "em = (case jd_email jd of None \<Rightarrow> e | Some x \<Rightarrow> x)"
  define bp where "bp = (case jd_shipping_price jd of None \<Rightarrow> (300::int) | Some x \<Rightarrow> x)"
  show ?thesis
  proof (cases "Shop_get_or_create d u n em bp")
    case (Inl x)
    with run p show ?thesis
      by (auto simp: import_products_def em_def bp_def Shop_get_or_create_existing)
  next
    case (Inr t2)
    then obtain s c d1 where g: "Shop_get_or_create d u n em bp = Inr (s, c, d1)"
      by (cases t2) auto
    have sh: "shops d' = shops d1"
      using run p g
      by (auto simp: import_products_def em_def bp_def shops_write_product_infos
               split: sum.splits prod.splits option.splits)
    have A: "users_shop d u \<noteq> None \<Longrightarrow> shops d' = shops d"
      using g sh by (auto simp: Shop_get_or_create_existing)
    have B: "users_shop d' u = Some s \<and>
          rows (shops d') = rows (shops d) @ [s] \<and>
          (jd_email jd = None \<longrightarrow> shop_email s = e) \<and>
          (jd_shipping_price jd = None \<longrightarrow> shop_base_shipping_price s = 300)"
      if "users_shop d u = None"
      using Shop_get_or_create_new[OF that g] sh
      by (auto simp: users_shop_def em_def bp_def)
    from A B show ?thesis by auto
  qed
qed

text \<open>
  The first import of the scenario's payload, which has neither key, and a second import
  by the same owner under another shop name, email and shipping price.
\<close>

theorem import_shop_defaults_and_reimport_witness:
  "users_shop empty_db 7 = None \<and>
   (\<exists>s. users_shop ex_db1 7 = Some s \<and> rows (shops ex_db1) = rows (shops empty_db) @ [s] \<and>
        shop_email s = ''u@example.org'' \<and> shop_base_shipping_price s = 300) \<and>
   users_shop ex_db1 7 \<noteq> None \<and>
   shops (snd (import_products ex_db1 7 ''u@example.org''
                 (ex_payload\<lparr>jd_shop := Some ''B'', jd_email := Some ''b@example.org'',
                              jd_shipping_price := Some 5\<rparr>))) = shops ex_db1"
proof -
  have run1: "import_products empty_db 7 ''u@example.org'' ex_payload = (StatusOk 1, ex_db1)"
    by code_simp
  have h1: "users_shop empty_db 7 = None"
    by code_simp
  have h2: "jd_email ex_payload = None" "jd_shipping_price ex_payload = None"
    by (simp_all add: ex_payload_def)
  have h3: "users_shop ex_db1 7 \<noteq> None"
    by code_simp
  show ?thesis
    using import_shop_defaults_and_reimport[OF run1] h1 h2 h3
      import_shop_defaults_and_reimport[OF surjective_pairing,
        of ex_db1 7 "''u@example.org''"
           "ex_payload\<lparr>jd_shop := Some ''B'', jd_email := Some ''b@example.org'',
                        jd_shipping_price := Some 5\<rparr>"]
    by auto
qed

section \<open>Failed runs (C1)\<close>

lemma Shop_get_or_create_frame:
  "Shop_get_or_create d u n e b = Inr (s, c, d1) \<Longrightarrow> d1\<lparr>shops := shops d\<rparr> = d"
  by (auto simp: Shop_get_or_create_def insert_row_def split: option.splits if_splits)

lemma validate_products_not_ParseError:
  "validate_products d cs cats goods = Inl err \<Longrightarrow> err \<noteq> ParseError f"
proof (induction goods arbitrary: err)
  case Nil
  then show ?case by simp
next
  case (Cons g goods)
  then show ?case
    by (auto simp: build_product_data_def split: sum.splits option.splits)
qed

text \<open>
  C1, as the code has it. A run that ends in a parse error, a category matching error, a
  product parse error or a listing validation failure returns that structured error and
  writes no catalog row: every table other than Shop is as before. The Shop table is
  as before too when the run fails at the parse step or the owner already had a shop;
  otherwise the Shop row that step 2 created for the owner stays in the store.
\<close>

theorem import_failure_writes_only_shop:
  assumes run: "import_products d u e jd = (r, d')"
      and failure: "is_validation_failure r"
  shows "d'\<lparr>shops := shops d\<rparr> = d \<and>
         ((\<exists>f. r = ParseError f) \<or> users_shop d u \<noteq> None \<longrightarrow> d' = d) \<and>
         ((\<forall>f. r \<noteq> ParseError f) \<and> users_shop d u = None \<longrightarrow>
            (\<exists>s. rows (shops d') = rows (shops d) @ [s] \<and> shop_owner s = u))"
proof (cases "parse_json_data jd")
  case (Inl f)
  with run show ?thesis by (auto simp: import_products_def)
next
  case (Inr t)
  then obtain n cs cats goods where p: "parse_json_data jd = Inr (n, cs, cats, goods)"
    by (cases t) auto
  define em where "em = (case jd_email jd of None \<Rightarrow> e | Some x \<Rightarrow> x)"
  define bp where "bp = (case jd_shipping_price jd of None \<Rightarrow> (300::int) | Some x \<Rightarrow> x)"
  show ?thesis
  proof (cases "Shop_get_or_create d u n em bp")
    case (Inl x)
    with run p failure show ?thesis
      by (auto simp: import_products_def em_def bp_def)
  next
    case (Inr t2)
    then obtain s c d1 where g: "Shop_get_or_create d u n em bp = Inr (s, c, d1)"
      by (cases t2) auto
    have d': "d' = d1" and np: "\<forall>f. r \<noteq> ParseError f"
      using run p g failure
      by (auto simp: import_products_def em_def bp_def validate_products_not_ParseError
               split: sum.splits prod.splits option.splits)
    have A: "d'\<lparr>shops := shops d\<rparr> = d"
      using Shop_get_or_create_frame[OF g] d' by simp
    have B: "d' = d" if "users_shop d u \<noteq> None"
      using that g d' by (auto simp: Shop_get_or_create_existing)
    have C: "\<exists>s. rows (shops d') = rows (shops d) @ [s] \<and> shop_owner s = u"
      if "users_shop d u = None"
      using Shop_get_or_create_new[OF that g] d' by auto
    from A B C np show ?thesis by auto
  qed
qed

theorem import_failure_writes_only_shop_witness:
  "is_validation_failure (fst (import_products empty_db 7 ''u@example.org''
                                 ex_payload_unknown_category)) \<and>
   users_shop empty_db 7 = None \<and>
   (snd (import_products empty_db 7 ''u@example.org'' ex_payload_unknown_category))
     \<lparr>shops := shops empty_db\<rparr> = empty_db \<and>
   (\<exists>s. rows (shops (snd (import_products empty_db 7 ''u@example.org''
                            ex_payload_unknown_category))) = rows (shops empty_db) @ [s] \<and>
        shop_owner s = 7)"
proof -
  have h1: "is_validation_failure (fst (import_products empty_db 7 ''u@example.org''
                                          ex_payload_unknown_category))"
    by code_simp
  have h2: "users_shop empty_db 7 = None"
    by code_simp
  have v: "fst (import_products empty_db 7 ''u@example.org'' ex_payload_unknown_category) =
             CategoryMatchError (KeyInt 2) [\<lparr>cs_id = Some 1, cs_name = Some ''Toys''\<rparr>]
               (ex_ball\<lparr>ps_category := Some 2\<rparr>)"
    by code_simp
  have h3: "\<forall>f. fst (import_products empty_db 7 ''u@example.org''
                       ex_payload_unknown_category) \<noteq> ParseError f"
    by (simp add: v)
  show ?thesis
    using import_failure_writes_only_shop[OF surjective_pairing h1] h1 h2 h3
    by blast
qed

text \<open>
  The claim as stated fails: the first import of an owner, with a good of unknown
  category, ends in the matching error and leaves a Shop row behind.
\<close>

theorem import_failure_retains_shop_counterexample:
  "fst (import_products empty_db 7 ''u@example.org'' ex_payload_unknown_category) =
     CategoryMatchError (KeyInt 2) [\<lparr>cs_id = Some 1, cs_name = Some ''Toys''\<rparr>]
       (ex_ball\<lparr>ps_category := Some 2\<rparr>) \<and>
   rows (shops empty_db) = [] \<and>
   rows (shops (snd (import_products empty_db 7 ''u@example.org''
                       ex_payload_unknown_category))) =
     [\<lparr>shop_id = 1, shop_owner = 7, shop_name = ''A'', shop_email = ''u@example.org'',
       shop_base_shipping_price = 300, shop_is_open = True\<rparr>]"
  by code_simp

section \<open>Validation of imported listings (C6)\<close>

lemma validate_external_id_NoContext [simp]:
  "validate_external_id d NoContext v = Some v"
  by (simp add: validate_external_id_def)

lemma field_external_id_NoContext:
  "field_external_id d NoContext pd = Some (pd_external_id pd)"
  by (simp add: field_external_id_def ExternalIdField_def IntegerField_def)

lemma is_valid_NoContext_db:
  "is_valid d NoContext pd = is_valid d0 NoContext pd"
proof -
  have "validated_data d NoContext pd = validated_data d0 NoContext pd"
    by (simp add: validated_data_def field_external_id_NoContext)
  moreover have "field_errors d NoContext pd = field_errors d0 NoContext pd"
    by (simp add: field_errors_def field_external_id_NoContext)
  ultimately show ?thesis
    by (simp add: is_valid_def split: option.splits)
qed

lemma validate_products_db:
  "validate_products d cs cats goods = validate_products d0 cs cats goods"
proof (induction goods)
  case Nil
  then show ?case by simp
next
  case (Cons g goods)
  then show ?case
    using is_valid_NoContext_db[of d _ d0]
    by (auto split: sum.splits)
qed

lemma Shop_get_or_create_ok:
  assumes "users_shop d u \<noteq> None \<or> (\<forall>s \<in> set (rows (shops d)). shop_name s \<noteq> n)"
  shows "\<exists>s c d1. Shop_get_or_create d u n e b = Inr (s, c, d1)"
  using assms
  by (auto simp: Shop_get_or_create_def users_shop_def insert_row_def split: option.splits)

lemma field_errors_nonempty:
  "validated_data d ctx pd = None \<Longrightarrow> field_errors d ctx pd \<noteq> []"
  by (auto simp: validated_data_def field_errors_def split: Option.bind_splits)

lemma is_valid_Inl:
  "is_valid d ctx pd = Inl detail \<Longrightarrow> detail = field_errors d ctx pd \<and> detail \<noteq> []"
  by (auto simp: is_valid_def field_errors_nonempty split: option.splits)

lemma validate_products_first_invalid:
  assumes "validate_products d cs cats pre = Inr vds"
      and "build_product_data cs cats ps = Inr pd"
      and "is_valid d NoContext pd = Inl detail"
  shows "validate_products d cs cats (pre @ ps # post) = Inl (InvalidProductInfo ps detail)"
  using assms
  by (induction pre arbitrary: vds) (auto split: sum.splits)

lemma is_valid_RequestContext:
  "is_valid d (RequestContext u) pd =
     (if \<exists>s. users_shop d u = Some s \<and> shop_has_external_id d (shop_id s) (pd_external_id pd)
      then Inl (field_errors d (RequestContext u) pd)
      else is_valid d NoContext pd)"
proof (cases "\<exists>s. users_shop d u = Some s \<and> shop_has_external_id d (shop_id s) (pd_external_id pd)")
  case True
  then have "field_external_id d (RequestContext u) pd = None"
    by (auto simp: field_external_id_def validate_external_id_def ExternalIdField_def
          IntegerField_def)
  then have "validated_data d (RequestContext u) pd = None"
    by (simp add: validated_data_def)
  with True show ?thesis by (simp add: is_valid_def)
next
  case False
  then have "field_external_id d (RequestContext u) pd = field_external_id d NoContext pd"
    by (auto simp: field_external_id_def validate_external_id_def ExternalIdField_def
          IntegerField_def split: option.splits)
  then have "validated_data d (RequestContext u) pd = validated_data d NoContext pd"
       and "field_errors d (RequestContext u) pd = field_errors d NoContext pd"
    by (simp_all add: validated_data_def field_errors_def)
  with False show ?thesis
    by (simp add: is_valid_def split: option.splits)
qed

text \<open>
  C6, as the code has it. The import validates every listing payload with the serializer
  of the manual listing-creation path and so with the same field checks, except for the
  check that the external\_id is not already taken in the shop: that check belongs to
  the manual path only, where it refuses the field \<open>external_id\<close>, and is skipped
  when importing. The first good whose payload is invalid ends the run with that good
  and the validation detail, which names at least one field, and no catalog row is
  written (only the Shop table may differ).
\<close>

theorem import_validation_skips_taken_check:
  assumes parse: "parse_json_data jd = Inr (n, cs, cats, pre @ ps # post)"
      and shop_ok: "users_shop d u \<noteq> None \<or> (\<forall>s \<in> set (rows (shops d)). shop_name s \<noteq> n)"
      and before: "validate_products d cs cats pre = Inr vds"
      and built: "build_product_data cs cats ps = Inr pd"
      and invalid: "is_valid d NoContext pd = Inl detail"
  shows "is_valid d (RequestContext u') pd' =
           (if \<exists>s. users_shop d u' = Some s \<and>
                    shop_has_external_id d (shop_id s) (pd_external_id pd')
            then Inl (field_errors d (RequestContext u') pd')
            else is_valid d NoContext pd') \<and>
         (\<exists>d'. import_products d u e jd = (InvalidProductInfo ps detail, d') \<and>
               d'\<lparr>shops := shops d\<rparr> = d) \<and>
         detail \<noteq> []"
proof -
  define em where "em = (case jd_email jd of None \<Rightarrow> e | Some x \<Rightarrow> x)"
  define bp where "bp = (case jd_shipping_price jd of None \<Rightarrow> (300::int) | Some x \<Rightarrow> x)"
  obtain s c d1 where g: "Shop_get_or_create d u n em bp = Inr (s, c, d1)"
    using Shop_get_or_create_ok[OF shop_ok] by blast
  have "validate_products d cs cats (pre @ ps # post) = Inl (InvalidProductInfo ps detail)"
    using validate_products_first_invalid[OF before built invalid] .
  then have v: "validate_products d1 cs cats (pre @ ps # post) = Inl (InvalidProductInfo ps detail)"
    using validate_products_db[of d1 cs cats _ d] by simp
  have run: "import_products d u e jd = (InvalidProductInfo ps detail, d1)"
    using parse g v by (simp add: import_products_def em_def bp_def)
  show ?thesis
    using run Shop_get_or_create_frame[OF g] is_valid_Inl[OF invalid]
    by (auto simp: is_valid_RequestContext)
qed

theorem import_validation_skips_taken_check_witness:
  "(\<exists>d'. import_products ex_db1 7 ''u@example.org'' ex_payload_negative_quantity =
      (InvalidProductInfo (ex_ball\<lparr>ps_id := Some 11, ps_quantity := Some (- 1)\<rparr>) [''quantity''], d') \<and>
      d'\<lparr>shops := shops ex_db1\<rparr> = ex_db1) \<and>
   is_valid ex_db1 (RequestContext 7) ex_product_data = Inl [''external_id'']"
proof -
  let ?cats = "[1 \<mapsto> \<lparr>cd_name = ''Toys'', cd_external_id = 1\<rparr>]"
  let ?cs = "[\<lparr>cs_id = Some 1, cs_name = Some ''Toys''\<rparr>]"
  let ?bad = "ex_ball\<lparr>ps_id := Some 11, ps_quantity := Some (- 1)\<rparr>"
  have parse: "parse_json_data ex_payload_negative_quantity =
                 Inr (''A'', ?cs, ?cats, [ex_ball] @ ?bad # [])"
    by (simp add: parse_json_data_def ex_payload_negative_quantity_def ex_payload_def)
  have shop_ok: "users_shop ex_db1 7 \<noteq> None \<or>
                 (\<forall>s \<in> set (rows (shops ex_db1)). shop_name s \<noteq> ''A'')"
    by code_simp
  have before: "validate_products ex_db1 ?cs ?cats [ex_ball] = Inr [ex_product_data]"
    by code_simp
  have built: "build_product_data ?cs ?cats ?bad =
                 Inr (ex_product_data\<lparr>pd_external_id := 11, pd_quantity := - 1\<rparr>)"
    by code_simp
  have invalid: "is_valid ex_db1 NoContext (ex_product_data\<lparr>pd_external_id := 11, pd_quantity := - 1\<rparr>) =
                   Inl [''quantity'']"
    by code_simp
  have "users_shop ex_db1 7 =
          Some \<lparr>shop_id = 1, shop_owner = 7, shop_name = ''A'', shop_email = ''u@example.org'',
                shop_base_shipping_price = 300, shop_is_open = True\<rparr>"
    by code_simp
  moreover have "shop_has_external_id ex_db1 1 (pd_external_id ex_product_data)"
    by code_simp
  ultimately have taken: "\<exists>s. users_shop ex_db1 7 = Some s \<and>
                   shop_has_external_id ex_db1 (shop_id s) (pd_external_id ex_product_data)"
    by simp
  have errs: "field_errors ex_db1 (RequestContext 7) ex_product_data = [''external_id'']"
    by code_simp
  note inst = import_validation_skips_taken_check[OF parse shop_ok before built invalid,
            of 7 ex_product_data "''u@example.org''"]
  from inst have run: "\<exists>d'. import_products ex_db1 7 ''u@example.org'' ex_payload_negative_quantity =
      (InvalidProductInfo ?bad [''quantity''], d') \<and> d'\<lparr>shops := shops ex_db1\<rparr> = ex_db1"
    by (rule conjunct1[OF conjunct2])
  from inst have "is_valid ex_db1 (RequestContext 7) ex_product_data =
           (if \<exists>s. users_shop ex_db1 7 = Some s \<and>
                    shop_has_external_id ex_db1 (shop_id s) (pd_external_id ex_product_data)
            then Inl (field_errors ex_db1 (RequestContext 7) ex_product_data)
            else is_valid ex_db1 NoContext ex_product_data)"
    by (rule conjunct1)
  with taken errs have "is_valid ex_db1 (RequestContext 7) ex_product_data = Inl [''external_id'']"
    by (simp only: if_True)
  with run show ?thesis by (rule conjI)
qed

text \<open>
  The claim fails as stated: in the store after the scenario's import, the payload of the
  scenario's good passes the import's validation, and importing it again succeeds, while
  the manual path refuses it because external\_id 10 is taken.
\<close>

theorem import_validation_accepts_taken_external_id_counterexample:
  "is_valid ex_db1 NoContext ex_product_data = Inr ex_product_data \<and>
   is_valid ex_db1 (RequestContext 7) ex_product_data = Inl [''external_id''] \<and>
   fst (import_products ex_db1 7 ''u@example.org'' ex_payload) = StatusOk 1"
  by code_simp

section \<open>Checkout with a shortfall (C2)\<close>

lemma check_ordered_items_result:
  assumes "set items \<subseteq> A"
      and "\<forall>a \<in> A. \<forall>b \<in> A. item_id a = item_id b \<longrightarrow> a = b"
      and "\<forall>it \<in> A. listing_of d it \<noteq> None"
      and "status_inv d A st"
  shows "\<exists>st'. check_ordered_items d items st = Inr st' \<and>
           acceptable_order st' = (acceptable_order st \<and> (\<forall>it \<in> set items. \<not> shortfall d it)) \<and>
           status_inv d A st' \<and>
           (\<forall>it \<in> A. item_statuses st (item_id it) = annotation d it \<longrightarrow>
                       item_statuses st' (item_id it) = annotation d it) \<and>
           (\<forall>it \<in> set items. item_statuses st' (item_id it) = annotation d it)"
  using assms
proof (induction items arbitrary: st)
  case Nil
  then show ?case by simp
next
  case (Cons x xs)
  from Cons.prems have xA: "x \<in> A" and xsA: "set xs \<subseteq> A" by auto
  from Cons.prems(3) xA obtain p where p: "listing_of d x = Some p" by auto
  have pf: "find (\<lambda>p. pi_id p = item_product_info x) (rows (product_infos d)) = Some p"
    using p by (simp add: listing_of_def)
  show ?case
  proof (cases "pi_quantity p < item_quantity x")
    case True
    define st1 where "st1 = st\<lparr>acceptable_order := False,
           item_statuses := (item_statuses st)(item_id x \<mapsto>
              TooManyOrdered (item_quantity x) (pi_quantity p))\<rparr>"
    have ax: "annotation d x = Some (TooManyOrdered (item_quantity x) (pi_quantity p))"
      using p True by (simp add: annotation_def)
    have same: "\<And>it. it \<in> A \<Longrightarrow> item_id it = item_id x \<Longrightarrow> it = x"
      using Cons.prems(2) xA by blast
    have inv1: "status_inv d A st1"
      unfolding status_inv_def
    proof
      fix it assume itA: "it \<in> A"
      show "item_statuses st1 (item_id it) = None \<or>
            item_statuses st1 (item_id it) = annotation d it"
      proof (cases "item_id it = item_id x")
        case True
        then have "it = x" using same itA by blast
        then show ?thesis using ax by (simp add: st1_def)
      next
        case False
        then show ?thesis using Cons.prems(4) itA by (simp add: status_inv_def st1_def)
      qed
    qed
    have step: "check_ordered_items d (x # xs) st = check_ordered_items d xs st1"
      using pf True by (simp add: st1_def Let_def)
    from Cons.IH[OF xsA Cons.prems(2) Cons.prems(3) inv1]
    obtain st' where r: "check_ordered_items d xs st1 = Inr st'"
      "acceptable_order st' = (acceptable_order st1 \<and> (\<forall>it \<in> set xs. \<not> shortfall d it))"
      "status_inv d A st'"
      "\<forall>it \<in> A. item_statuses st1 (item_id it) = annotation d it \<longrightarrow>
                       item_statuses st' (item_id it) = annotation d it"
      "\<forall>it \<in> set xs. item_statuses st' (item_id it) = annotation d it"
      by blast
    have sx: "shortfall d x" using p True by (simp add: shortfall_def)
    have keep: "\<forall>it \<in> A. item_statuses st (item_id it) = annotation d it \<longrightarrow>
                       item_statuses st1 (item_id it) = annotation d it"
    proof (intro ballI impI)
      fix it assume itA: "it \<in> A" and h: "item_statuses st (item_id it) = annotation d it"
      show "item_statuses st1 (item_id it) = annotation d it"
      proof (cases "item_id it = item_id x")
        case True
        then have "it = x" using same itA by blast
        then show ?thesis using ax by (simp add: st1_def)
      next
        case False
        then show ?thesis using h by (simp add: st1_def)
      qed
    qed
    have x1: "item_statuses st1 (item_id x) = annotation d x"
      using ax by (simp add: st1_def)
    show ?thesis
      using step r sx keep x1 xA by (auto simp: st1_def)
  next
    case False
    define st1 where "st1 = (if acceptable_order st
          then st\<lparr>quantity_to_update := (quantity_to_update st)(pi_id p \<mapsto> pi_quantity p - item_quantity x)\<rparr>
          else st)"
    have ax: "annotation d x = None"
      using p False by (simp add: annotation_def)
    have inv1: "status_inv d A st1"
      using Cons.prems(4) by (auto simp: status_inv_def st1_def)
    have step: "check_ordered_items d (x # xs) st = check_ordered_items d xs st1"
      using pf False by (simp add: st1_def Let_def)
    from Cons.IH[OF xsA Cons.prems(2) Cons.prems(3) inv1]
    obtain st' where r: "check_ordered_items d xs st1 = Inr st'"
      "acceptable_order st' = (acceptable_order st1 \<and> (\<forall>it \<in> set xs. \<not> shortfall d it))"
      "status_inv d A st'"
      "\<forall>it \<in> A. item_statuses st1 (item_id it) = annotation d it \<longrightarrow>
                       item_statuses st' (item_id it) = annotation d it"
      "\<forall>it \<in> set xs. item_statuses st' (item_id it) = annotation d it"
      by blast
    have sx: "\<not> shortfall d x" using p False by (simp add: shortfall_def)
    have st1s: "item_statuses st1 = item_statuses st" "acceptable_order st1 = acceptable_order st"
      by (auto simp: st1_def)
    have x0: "item_statuses st (item_id x) = annotation d x"
      using Cons.prems(4) xA ax by (auto simp: status_inv_def)
    show ?thesis
      using step r sx st1s x0 xA by auto
  qed
qed


lemma check_all_orders_result:
  assumes "\<forall>so \<in> set sos. set (ordered_items_of d so) \<subseteq> A"
      and "\<forall>a \<in> A. \<forall>b \<in> A. item_id a = item_id b \<longrightarrow> a = b"
      and "\<forall>it \<in> A. listing_of d it \<noteq> None"
      and "status_inv d A st"
  shows "\<exists>st'. check_all_orders d sos st = Inr st' \<and>
           acceptable_order st' =
             (acceptable_order st \<and>
              (\<forall>so \<in> set sos. \<forall>it \<in> set (ordered_items_of d so). \<not> shortfall d it)) \<and>
           status_inv d A st' \<and>
           (\<forall>it \<in> A. item_statuses st (item_id it) = annotation d it \<longrightarrow>
                       item_statuses st' (item_id it) = annotation d it) \<and>
           (\<forall>so \<in> set sos. \<forall>it \<in> set (ordered_items_of d so).
              item_statuses st' (item_id it) = annotation d it)"
  using assms
proof (induction sos arbitrary: st)
  case Nil
  then show ?case by simp
next
  case (Cons so sos)
  from Cons.prems(1) have soA: "set (ordered_items_of d so) \<subseteq> A"
    and sosA: "\<forall>so \<in> set sos. set (ordered_items_of d so) \<subseteq> A" by auto
  from check_ordered_items_result[OF soA Cons.prems(2) Cons.prems(3) Cons.prems(4)]
  obtain st1 where r1: "check_ordered_items d (ordered_items_of d so) st = Inr st1"
      "acceptable_order st1 =
         (acceptable_order st \<and> (\<forall>it \<in> set (ordered_items_of d so). \<not> shortfall d it))"
      "status_inv d A st1"
      "\<forall>it \<in> A. item_statuses st (item_id it) = annotation d it \<longrightarrow>
                       item_statuses st1 (item_id it) = annotation d it"
      "\<forall>it \<in> set (ordered_items_of d so). item_statuses st1 (item_id it) = annotation d it"
    by blast
  from Cons.IH[OF sosA Cons.prems(2) Cons.prems(3) r1(3)]
  obtain st' where r2: "check_all_orders d sos st1 = Inr st'"
      "acceptable_order st' =
         (acceptable_order st1 \<and>
          (\<forall>so \<in> set sos. \<forall>it \<in> set (ordered_items_of d so). \<not> shortfall d it))"
      "status_inv d A st'"
      "\<forall>it \<in> A. item_statuses st1 (item_id it) = annotation d it \<longrightarrow>
                       item_statuses st' (item_id it) = annotation d it"
      "\<forall>so \<in> set sos. \<forall>it \<in> set (ordered_items_of d so).
              item_statuses st' (item_id it) = annotation d it"
    by blast
  have step: "check_all_orders d (so # sos) st = Inr st'"
    using r1(1) r2(1) by simp
  have cur: "\<forall>it \<in> set (ordered_items_of d so). item_statuses st' (item_id it) = annotation d it"
    using r1(5) r2(4) soA by blast
  show ?case
    using step r1(2) r2(2) r2(3) r1(4) r2(4) r2(5) cur by auto
qed

text \<open>
  C2. When the buyer has a basket, the request names a valid contact and at least one
  line item of the basket orders more than its listing has in stock, the checkout
  leaves the whole store as it was (no listing quantity is decremented, no SellerOrder
  or BuyerOrder changes state, no created\_at or contact is set) and answers with the
  partial-acceptance result: the basket tree in which exactly the items with a
  shortfall carry the shortfall message. (Primary keys of line items are unique, and
  every line item refers to an existing listing.)
\<close>

theorem checkout_shortfall_changes_nothing:
  assumes basket: "basket_object d u = Some b"
      and contact: "validate_contact_id d u c \<noteq> None"
      and pks: "distinct (map item_id (rows (seller_order_items d)))"
      and listings: "\<forall>it \<in> set (basket_items d b). listing_of d it \<noteq> None"
      and short: "\<exists>it \<in> set (basket_items d b). shortfall d it"
  shows "OrderViewSet_create d u c now = (PartialContent (annotated_basket d b), d)"
proof -
  define A where "A = set (basket_items d b)"
  define st0 where "st0 = \<lparr>acceptable_order = True, quantity_to_update = Map.empty,
              item_statuses = (Map.empty :: pk \<rightharpoonup> item_status)\<rparr>"
  have sub: "\<forall>so \<in> set (seller_orders_of d b). set (ordered_items_of d so) \<subseteq> A"
    by (auto simp: A_def basket_items_def)
  have Arows: "A \<subseteq> set (rows (seller_order_items d))"
    by (auto simp: A_def basket_items_def ordered_items_of_def)
  have inj: "inj_on item_id (set (rows (seller_order_items d)))"
    using pks by (simp add: distinct_map)
  have fn: "\<forall>a \<in> A. \<forall>b \<in> A. item_id a = item_id b \<longrightarrow> a = b"
    using inj Arows by (meson inj_onD subsetD)
  have ls: "\<forall>it \<in> A. listing_of d it \<noteq> None"
    using listings by (simp add: A_def)
  have inv0: "status_inv d A st0"
    by (simp add: status_inv_def st0_def)
  from check_all_orders_result[OF sub fn ls inv0]
  obtain st' where r: "check_all_orders d (seller_orders_of d b) st0 = Inr st'"
      "acceptable_order st' =
         (acceptable_order st0 \<and>
          (\<forall>so \<in> set (seller_orders_of d b). \<forall>it \<in> set (ordered_items_of d so). \<not> shortfall d it))"
      "\<forall>so \<in> set (seller_orders_of d b). \<forall>it \<in> set (ordered_items_of d so).
              item_statuses st' (item_id it) = annotation d it"
    by blast
  have na: "\<not> acceptable_order st'"
    using r(2) short by (auto simp: basket_items_def)
  have view: "order_tree d b (item_statuses st') = annotated_basket d b"
    using r(3) by (simp add: order_tree_def annotated_basket_def)
  obtain uc where uc: "validate_contact_id d u c = Some uc"
    using contact by auto
  show ?thesis
    using basket uc r(1) na view
    by (simp add: OrderViewSet_create_def st0_def)
qed

theorem checkout_shortfall_changes_nothing_witness:
  "basket_object ex_db3 8 = Some ex_basket \<and>
   (\<exists>it \<in> set (basket_items ex_db3 ex_basket). shortfall ex_db3 it) \<and>
   OrderViewSet_create ex_db3 8 (Some 1) 1000 =
     (PartialContent (annotated_basket ex_db3 ex_basket), ex_db3) \<and>
   map (map snd \<circ> snd) (ov_seller_orders (annotated_basket ex_db3 ex_basket)) =
     [[Some (TooManyOrdered 7 5)]]"
proof -
  have basket: "basket_object ex_db3 8 = Some ex_basket"
    by code_simp
  have contact: "validate_contact_id ex_db3 8 (Some 1) \<noteq> None"
    by code_simp
  have pks: "distinct (map item_id (rows (seller_order_items ex_db3)))"
    by code_simp
  have listings: "\<forall>it \<in> set (basket_items ex_db3 ex_basket). listing_of ex_db3 it \<noteq> None"
    by code_simp
  have short: "\<exists>it \<in> set (basket_items ex_db3 ex_basket). shortfall ex_db3 it"
    by code_simp
  have view: "map (map snd \<circ> snd) (ov_seller_orders (annotated_basket ex_db3 ex_basket)) =
                [[Some (TooManyOrdered 7 5)]]"
    by code_simp
  show ?thesis
    using checkout_shortfall_changes_nothing[OF basket contact pks listings short, of 1000]
      basket short view
    by (intro conjI)
qed

section \<open>Adding to the basket without a basket (C9)\<close>

lemma BuyerOrder_create_eq:
  "BuyerOrder_create d u = (new_basket d u, with_new_basket d u)"
  by (simp add: BuyerOrder_create_def insert_row_def new_basket_def with_new_basket_def)

lemma many_OrderItemBaseSerializer_fst:
  "many (OrderItemBaseSerializer d) req = Some v \<Longrightarrow> map fst v = map fst req"
proof (induction req arbitrary: v)
  case Nil
  then show ?case by simp
next
  case (Cons x xs)
  then show ?case
    by (auto simp: OrderItemBaseSerializer_def split: option.splits Option.bind_splits
             dest!: find_Some_iff[THEN iffD1])
qed

lemma validated_ordered_items_keys:
  "validated_ordered_items v m i \<noteq> None \<longleftrightarrow> i \<in> fst ` set v \<or> m i \<noteq> None"
  by (induction v arbitrary: m) auto

lemma OrderItemBaseSerializer_db:
  "product_infos d1 = product_infos d \<Longrightarrow> OrderItemBaseSerializer d1 = OrderItemBaseSerializer d"
  by (auto simp: OrderItemBaseSerializer_def fun_eq_iff)

lemma basket_object_None: "basket_object d u = None \<Longrightarrow> basket_queryset d u = []"
  by (simp add: basket_object_def split: list.splits)

text \<open>
  C9, as the code has it. For a buyer without a basket, \<open>BasketView.post\<close> creates the
  basket-state BuyerOrder before it validates and filters the request, so the row is in
  the store after every such request. A request that names a listing id that does not
  exist (or a quantity below 1) is refused with the validation error. A valid request
  in which every listing belongs to a closed shop returns the new basket with no
  SellerOrder, and the new BuyerOrder is the only row written. (No SellerOrder refers
  to a BuyerOrder key that the sequence has not handed out yet.)
\<close>

theorem basket_post_without_basket:
  assumes nb: "basket_object d u = None"
      and fk: "\<forall>so \<in> set (rows (seller_orders d)). so_buyer_order so < next_pk (buyer_orders d)"
      and run: "BasketView_post d u req = (resp, d')"
  shows "rows (buyer_orders d') = rows (buyer_orders d) @ [new_basket d u] \<and>
         (many (OrderItemBaseSerializer d) req = None \<longrightarrow> resp = BadRequest) \<and>
         (many (OrderItemBaseSerializer d) req \<noteq> None \<and>
          (\<forall>p \<in> set (rows (product_infos d)). pi_id p \<in> fst ` set req \<longrightarrow>
             (\<forall>s \<in> set (rows (shops d)). shop_id s = pi_shop p \<longrightarrow> \<not> shop_is_open s)) \<longrightarrow>
          resp = Created201 (Some \<lparr>ov_order = new_basket d u, ov_seller_orders = []\<rparr>) \<and>
          d' = with_new_basket d u)"
proof -
  define d1 where "d1 = with_new_basket d u"
  have ser: "OrderItemBaseSerializer d1 = OrderItemBaseSerializer d"
    by (rule OrderItemBaseSerializer_db) (simp add: d1_def with_new_basket_def)
  have bo1: "rows (buyer_orders d1) = rows (buyer_orders d) @ [new_basket d u]"
    by (simp add: d1_def with_new_basket_def)
  show ?thesis
  proof (cases "many (OrderItemBaseSerializer d) req")
    case None
    then show ?thesis
      using run nb bo1 ser by (simp add: BasketView_post_def BuyerOrder_create_eq d1_def)
  next
    case (Some v)
    define items where "items = validated_ordered_items v Map.empty"
    define d2 where "d2 = add_shops d1 d1 (new_basket d u) items (shops_with_ordered_products d1 items)"
    have d': "d' = d2"
      and resp: "resp = Created201 (map_option (\<lambda>b. order_tree d2 b Map.empty) (basket_object d2 u))"
      using run nb Some ser
      by (auto simp: BasketView_post_def BuyerOrder_create_eq d1_def d2_def items_def Let_def)
    have fr: "order_frame d1 d2"
      unfolding d2_def by (rule order_frame_add_shops)
    have bo2: "buyer_orders d2 = buyer_orders d1"
      using fr unfolding order_frame_def by (metis db.select_convs(10) db.surjective db.update_convs(11) db.update_convs(12))
    have A: "rows (buyer_orders d') = rows (buyer_orders d) @ [new_basket d u]"
      using d' bo2 bo1 by simp
    have C: "resp = Created201 (Some \<lparr>ov_order = new_basket d u, ov_seller_orders = []\<rparr>) \<and>
             d' = with_new_basket d u"
      if closed: "\<forall>p \<in> set (rows (product_infos d)). pi_id p \<in> fst ` set req \<longrightarrow>
             (\<forall>s \<in> set (rows (shops d)). shop_id s = pi_shop p \<longrightarrow> \<not> shop_is_open s)"
    proof -
      have keys: "\<And>i. items i \<noteq> None \<longleftrightarrow> i \<in> fst ` set req"
        using validated_ordered_items_keys[of v Map.empty] many_OrderItemBaseSerializer_fst[OF Some]
        by (simp add: items_def) (metis image_set)
      have "shops_with_ordered_products d1 items = []"
        using closed keys
        by (auto simp: shops_with_ordered_products_def requested_product_infos_def d1_def
              with_new_basket_def filter_empty_conv)
      then have d2: "d2 = d1" by (simp add: d2_def)
      have q: "basket_queryset d1 u = [new_basket d u]"
        using basket_object_None[OF nb]
        by (simp add: basket_queryset_def d1_def with_new_basket_def new_basket_def)
      have so: "seller_orders_of d1 (new_basket d u) = []"
        using fk
        by (auto simp: seller_orders_of_def d1_def with_new_basket_def new_basket_def filter_empty_conv)
      show ?thesis
        using resp d' d2 q so by (simp add: basket_object_def order_tree_def d1_def)
    qed
    from A C Some show ?thesis by simp
  qed
qed

theorem basket_post_without_basket_witness:
  "basket_object ex_db2_closed 8 = None \<and>
   many (OrderItemBaseSerializer ex_db2_closed) [(1, 7)] \<noteq> None \<and>
   BasketView_post ex_db2_closed 8 [(1, 7)] =
     (Created201 (Some \<lparr>ov_order = ex_basket, ov_seller_orders = []\<rparr>),
      with_new_basket ex_db2_closed 8) \<and>
   many (OrderItemBaseSerializer ex_db2_closed) [(999, 1)] = None \<and>
   fst (BasketView_post ex_db2_closed 8 [(999, 1)]) = BadRequest \<and>
   rows (buyer_orders (snd (BasketView_post ex_db2_closed 8 [(999, 1)]))) = [ex_basket]"
proof -
  have nb: "basket_object ex_db2_closed 8 = None"
    by code_simp
  have fk: "\<forall>so \<in> set (rows (seller_orders ex_db2_closed)).
              so_buyer_order so < next_pk (buyer_orders ex_db2_closed)"
    by code_simp
  have valid: "many (OrderItemBaseSerializer ex_db2_closed) [(1, 7)] \<noteq> None"
    by code_simp
  have closed: "\<forall>p \<in> set (rows (product_infos ex_db2_closed)). pi_id p \<in> fst ` set [(1, 7)] \<longrightarrow>
     (\<forall>s \<in> set (rows (shops ex_db2_closed)). shop_id s = pi_shop p \<longrightarrow> \<not> shop_is_open s)"
    by code_simp
  have invalid: "many (OrderItemBaseSerializer ex_db2_closed) [(999, 1)] = None"
    by code_simp
  have nbk: "new_basket ex_db2_closed 8 = ex_basket"
    by code_simp
  have old: "rows (buyer_orders ex_db2_closed) = []"
    by code_simp
  have r1: "fst (BasketView_post ex_db2_closed 8 [(1, 7)]) =
              Created201 (Some \<lparr>ov_order = ex_basket, ov_seller_orders = []\<rparr>) \<and>
            snd (BasketView_post ex_db2_closed 8 [(1, 7)]) = with_new_basket ex_db2_closed 8"
    using basket_post_without_basket[OF nb fk surjective_pairing, of "[(1, 7)]"] valid closed nbk
    by simp
  have r2: "fst (BasketView_post ex_db2_closed 8 [(999, 1)]) = BadRequest \<and>
            rows (buyer_orders (snd (BasketView_post ex_db2_closed 8 [(999, 1)]))) = [ex_basket]"
    using basket_post_without_basket[OF nb fk surjective_pairing, of "[(999, 1)]"] invalid nbk old
    by simp
  show ?thesis
    using nb valid invalid r1 r2 by (simp add: prod_eq_iff)
qed

text \<open>
  The claim fails as stated for a listing id that does not exist: the buyer gets the
  validation error, not a basket, while the BuyerOrder row has been written.
\<close>

theorem basket_post_unknown_listing_counterexample:
  "basket_object ex_db2 8 = None \<and>
   find (\<lambda>p. pi_id p = 999) (rows (product_infos ex_db2)) = None \<and>
   fst (BasketView_post ex_db2 8 [(999, 1)]) = BadRequest \<and>
   rows (buyer_orders (snd (BasketView_post ex_db2 8 [(999, 1)]))) = [ex_basket]"
  by code_simp

section \<open>The price snapshot of a line item (C5)\<close>















section \<open>Pruning a basket (C7)\<close>

lemma delete_ids_basket:
  "delete_ids d u ids =
     (case basket_object d u of
        None \<Rightarrow> (DeleteError BasketDoesNotExist, d)
      | Some basket \<Rightarrow>
          (let seller_orders_baskets = seller_orders_of d basket;
               all_ordered_ids = all_ordered_ids d basket;
               unknown_ids = ids - all_ordered_ids
           in if unknown_ids \<noteq> {} then (DeleteError (UnknownIds unknown_ids), d)
              else if bo_state basket = BO_basket \<and> ids = all_ordered_ids
              then (Deleted None, delete_buyer_order d basket)
              else (let (seller_orders_to_del, ordered_items_to_del) =
                          collect_to_del (basket_pairs d basket) ids ({}, {});
                        d1 = delete_seller_orders d
                               (\<lambda>so. so_buyer_order so = bo_id basket \<and>
                                      so_id so \<in> seller_orders_to_del);
                        d2 = d1\<lparr>seller_order_items :=
                                  delete_rows (\<lambda>it. item_id it \<in> ordered_items_to_del)
                                    (seller_order_items d1)\<rparr>
                    in (Deleted (Some (order_tree d2 basket Map.empty)), d2))))"
  unfolding delete_ids_def Let_def model_all_ordered_ids basket_pairs_def by (rule refl)

text \<open>
  C7. A pruning request whose parameter parses to a set of listing ids, all of them
  ordered in the buyer's basket: if the set is the set of all ordered listing ids, the
  BuyerOrder is deleted with all its SellerOrders and their line items, and the result
  is empty; if it is a proper subset, exactly the line items of the basket that refer
  to a requested listing are deleted, and exactly the SellerOrders of the basket all of
  whose line items (at least one) do, and the result is the surviving basket tree.
  Every other row of the store, the listings and their quantities among them, is as
  before. (Primary keys of SellerOrders and line items are unique, and no listing occurs
  in two SellerOrders of the basket.)
\<close>

theorem basket_delete_all_or_matching:
  assumes param: "ids_to_del_of param = Inr ids"
      and basket: "basket_object d u = Some b"
      and known: "ids \<subseteq> all_ordered_ids d b"
      and so_ok: "table_ok so_id (seller_orders d)"
      and it_ok: "table_ok item_id (seller_order_items d)"
      and dj: "disjoint_listings (basket_pairs d b)"
  shows "(ids = all_ordered_ids d b \<longrightarrow>
            BasketView_delete d u param = (Deleted None, without_basket d b)) \<and>
         (ids \<noteq> all_ordered_ids d b \<longrightarrow>
            BasketView_delete d u param =
              (Deleted (Some (order_tree (without_matching d b ids) b Map.empty)),
               without_matching d b ids))"
proof -
  have st: "bo_state b = BO_basket"
    using basket_object_Some[OF basket] by simp
  have un: "ids - all_ordered_ids d b = {}"
    using known by auto
  have del: "BasketView_delete d u param = delete_ids d u ids"
    using param by (simp add: BasketView_delete_def)
  have A: "delete_ids d u ids = (Deleted None, without_basket d b)"
    if "ids = all_ordered_ids d b"
    using that basket st
    by (simp add: delete_ids_basket delete_buyer_order_eq Let_def)
  have B: "delete_ids d u ids =
             (Deleted (Some (order_tree (without_matching d b ids) b Map.empty)),
              without_matching d b ids)"
    if ne: "ids \<noteq> all_ordered_ids d b"
  proof -
    have c: "collect_to_del (basket_pairs d b) ids ({}, {}) =
               (to_del_orders (basket_pairs d b) ids, to_del_items (basket_pairs d b) ids)"
      using collect_to_del_eq[OF dj, of ids "({}, {})"] by simp
    show ?thesis
      using basket ne un c delete_matching_eq[OF so_ok it_ok, of b ids]
      by (simp add: delete_ids_basket Let_def)
  qed
  from A B del show ?thesis by simp
qed

text \<open>
  The basket of \<open>ex_db6\<close> holds listing 1 of shop A and listing 2 of shop B. Deleting
  listing 1 deletes the SellerOrder of shop A and keeps the rest; deleting both deletes
  the basket.
\<close>

theorem basket_delete_all_or_matching_witness:
  "ids_to_del_of (Some ''1'') = Inr {1} \<and> {1} \<subseteq> all_ordered_ids ex_db6 ex_basket \<and>
   {1} \<noteq> all_ordered_ids ex_db6 ex_basket \<and>
   BasketView_delete ex_db6 8 (Some ''1'') =
     (Deleted (Some (order_tree (without_matching ex_db6 ex_basket {1}) ex_basket Map.empty)),
      without_matching ex_db6 ex_basket {1}) \<and>
   map so_shop (rows (seller_orders (without_matching ex_db6 ex_basket {1}))) = [2] \<and>
   map item_product_info (rows (seller_order_items (without_matching ex_db6 ex_basket {1}))) = [2] \<and>
   ids_to_del_of (Some '',2,1,'') = Inr {1, 2} \<and>
   BasketView_delete ex_db6 8 (Some '',2,1,'') = (Deleted None, without_basket ex_db6 ex_basket) \<and>
   rows (buyer_orders (without_basket ex_db6 ex_basket)) = []"
proof -
  have p1: "ids_to_del_of (Some ''1'') = Inr {1}"
    by code_simp
  have p2: "ids_to_del_of (Some '',2,1,'') = Inr {1, 2}"
    by code_simp
  have basket: "basket_object ex_db6 8 = Some ex_basket"
    by code_simp
  have all: "all_ordered_ids ex_db6 ex_basket = {1, 2}"
    by code_simp
  have k1: "{1} \<subseteq> all_ordered_ids ex_db6 ex_basket"
    unfolding all by simp
  have k2: "{1, 2} \<subseteq> all_ordered_ids ex_db6 ex_basket"
    unfolding all by simp
  have n1: "{1} \<noteq> all_ordered_ids ex_db6 ex_basket"
    unfolding all by simp
  have so_ok: "table_ok so_id (seller_orders ex_db6)"
    by code_simp
  have it_ok: "table_ok item_id (seller_order_items ex_db6)"
    by code_simp
  have dj: "disjoint_listings (basket_pairs ex_db6 ex_basket)"
    by code_simp
  have r1: "map so_shop (rows (seller_orders (without_matching ex_db6 ex_basket {1}))) = [2]"
    by code_simp
  have r2: "map item_product_info
              (rows (seller_order_items (without_matching ex_db6 ex_basket {1}))) = [2]"
    by code_simp
  have r3: "rows (buyer_orders (without_basket ex_db6 ex_basket)) = []"
    by code_simp
  show ?thesis
    using basket_delete_all_or_matching[OF p1 basket k1 so_ok it_ok dj]
          basket_delete_all_or_matching[OF p2 basket k2 so_ok it_ok dj]
          p1 p2 k1 n1 r1 r2 r3 all
    by simp
qed

section \<open>C4: a re-import zeroes the absent listings and upserts the others\<close>



section \<open>C3: an identical second import changes nothing\<close>

text \<open>
  C3, as the code has it. When a run of \<open>import_products\<close> has returned status ok,
  a second run with the same payload on the resulting store returns status ok and the
  same store: no row of any table is changed, provided that goods of the payload that
  share an id agree in quantity, price, price\_rrc and parameters (compared under sorting
  by parameter name). For an existing listing, \<open>update_or_create\<close> returns the
  listing with the payload's quantity, price and price\_rrc and nothing else changed;
  when the old and new parameters are equal under sorting by parameter name, the
  ProductParameter, Parameter and ValueOfParameter tables are left as they are; and when
  moreover quantity, price and price\_rrc are equal, nothing is written. (The store's
  primary keys are unique, the listing key of a ProductParameter row was handed out by
  the listing table's sequence, and every listing belongs to a shop whose key was handed
  out.)
\<close>

theorem repeated_import_changes_nothing:
  assumes run: "import_products d u e jd = (StatusOk sid, d1)"
      and ok: "catalog_ok d"
      and fk: "listings_have_shops d"
      and cons: "consistent_goods jd"
  shows "import_products d1 u e jd = (StatusOk sid, d1) \<and>
         (shop_instance d0 s0 (pd_external_id vd) = Some inst \<and>
          brief_parameters d0 inst = Some old \<longrightarrow>
            fst (update_or_create d0 s0 vd) =
              Inr (inst\<lparr>pi_quantity := pd_quantity vd, pi_price := pd_price vd,
                        pi_price_rrc := pd_price_rrc vd\<rparr>) \<and>
            (sort_key fst old = sort_key fst (pd_product_parameters vd) \<longrightarrow>
               product_parameters (snd (update_or_create d0 s0 vd)) = product_parameters d0 \<and>
               parameters (snd (update_or_create d0 s0 vd)) = parameters d0 \<and>
               parameter_values (snd (update_or_create d0 s0 vd)) = parameter_values d0) \<and>
            (pi_quantity inst = pd_quantity vd \<and> pi_price inst = pd_price vd \<and>
             pi_price_rrc inst = pd_price_rrc vd \<and>
             sort_key fst old = sort_key fst (pd_product_parameters vd) \<longrightarrow>
               update_or_create d0 s0 vd = (Inr inst, d0)))"
proof -
  from import_run_shape[OF run] obtain n cs cats goods s created dz vds where
    parse: "parse_json_data jd = Inr (n, cs, cats, goods)" and
    sh: "Shop_get_or_create d u n (case jd_email jd of None \<Rightarrow> e | Some x \<Rightarrow> x)
           (case jd_shipping_price jd of None \<Rightarrow> 300 | Some p \<Rightarrow> p) = Inr (s, created, dz)" and
    val: "validate_products dz cs cats goods = Inr vds" and
    w: "write_product_infos dz s created vds = (None, d1)" and
    sid: "sid = shop_id s"
    by blast
  note sg = Shop_get_or_create_result[OF sh]
  have tabs: "product_infos dz = product_infos d" "parameters dz = parameters d"
             "parameter_values dz = parameter_values d"
             "product_parameters dz = product_parameters d"
  proof -
    have "product_infos (dz\<lparr>shops := shops d\<rparr>) = product_infos dz"
         "parameters (dz\<lparr>shops := shops d\<rparr>) = parameters dz"
         "parameter_values (dz\<lparr>shops := shops d\<rparr>) = parameter_values dz"
         "product_parameters (dz\<lparr>shops := shops d\<rparr>) = product_parameters dz"
      by simp_all
    then show "product_infos dz = product_infos d" "parameters dz = parameters d"
             "parameter_values dz = parameter_values d"
             "product_parameters dz = product_parameters d"
      unfolding sg(2) by simp_all
  qed
  have okz: "catalog_ok dz"
    using ok by (simp add: catalog_ok_def tabs)
  have none: "created \<longrightarrow> \<not> shop_has_product_infos dz s"
    using fk sg(3) by (auto simp: shop_has_product_infos_def listings_have_shops_def tabs)
  have goods: "jd_goods jd = Some goods"
    using parse by (rule parse_json_data_goods)
  have fs: "list_all2 from_source goods vds"
    using val by (rule validate_products_from_source)
  have cv: "\<forall>a \<in> set vds. \<forall>b \<in> set vds. pd_external_id a = pd_external_id b \<longrightarrow> same_upsert a b"
    using consistent_validated[OF fs] cons goods by (simp add: consistent_goods_def)
  have w2: "write_product_infos d1 s False vds = (None, d1)"
    using write_product_infos_again[OF okz w none cv] .
  have "shops d1 = shops dz"
    using w by (rule shops_write_product_infos)
  then have us: "users_shop d1 u = Some s"
    using sg(1) by (simp add: users_shop_def)
  have val2: "validate_products d1 cs cats goods = Inr vds"
    using val validate_products_db[of d1 cs cats goods dz] by simp
  have A: "import_products d1 u e jd = (StatusOk sid, d1)"
    by (simp add: import_products_def parse Shop_get_or_create_existing[OF us] val2 w2 sid)
  have B: "fst (update_or_create d0 s0 vd) =
              Inr (inst\<lparr>pi_quantity := pd_quantity vd, pi_price := pd_price vd,
                        pi_price_rrc := pd_price_rrc vd\<rparr>) \<and>
            (sort_key fst old = sort_key fst (pd_product_parameters vd) \<longrightarrow>
               product_parameters (snd (update_or_create d0 s0 vd)) = product_parameters d0 \<and>
               parameters (snd (update_or_create d0 s0 vd)) = parameters d0 \<and>
               parameter_values (snd (update_or_create d0 s0 vd)) = parameter_values d0) \<and>
            (pi_quantity inst = pd_quantity vd \<and> pi_price inst = pd_price vd \<and>
             pi_price_rrc inst = pd_price_rrc vd \<and>
             sort_key fst old = sort_key fst (pd_product_parameters vd) \<longrightarrow>
               update_or_create d0 s0 vd = (Inr inst, d0))"
    if "shop_instance d0 s0 (pd_external_id vd) = Some inst" "brief_parameters d0 inst = Some old"
    using update_or_create_decisions[OF that] by blast
  from A B show ?thesis by blast
qed

text \<open>
  The scenario's shop imports the payload with the cube twice: the second run returns
  the store of the first. And the ball's payload on the store that lists the ball writes
  nothing.
\<close>

theorem repeated_import_changes_nothing_witness:
  "import_products ex_db1 7 ''u@example.org'' ex_payload_cube =
     (StatusOk 1, snd (import_products ex_db1 7 ''u@example.org'' ex_payload_cube)) \<and>
   catalog_ok ex_db1 \<and> listings_have_shops ex_db1 \<and> consistent_goods ex_payload_cube \<and>
   import_products (snd (import_products ex_db1 7 ''u@example.org'' ex_payload_cube)) 7
       ''u@example.org'' ex_payload_cube =
     (StatusOk 1, snd (import_products ex_db1 7 ''u@example.org'' ex_payload_cube)) \<and>
   shop_instance ex_db1 ex_shop (pd_external_id ex_product_data) = Some ex_listing \<and>
   brief_parameters ex_db1 ex_listing = Some [(''color'', ''red'')] \<and>
   update_or_create ex_db1 ex_shop ex_product_data = (Inr ex_listing, ex_db1)"
proof -
  let ?d1 = "snd (import_products ex_db1 7 ''u@example.org'' ex_payload_cube)"
  have st: "fst (import_products ex_db1 7 ''u@example.org'' ex_payload_cube) = StatusOk 1"
    by code_simp
  have run: "import_products ex_db1 7 ''u@example.org'' ex_payload_cube = (StatusOk 1, ?d1)"
    using st by (simp add: prod_eq_iff)
  have ok: "catalog_ok ex_db1"
    by code_simp
  have fk: "listings_have_shops ex_db1"
    by code_simp
  have cons: "consistent_goods ex_payload_cube"
    by code_simp
  have si: "shop_instance ex_db1 ex_shop (pd_external_id ex_product_data) = Some ex_listing"
    by code_simp
  have br: "brief_parameters ex_db1 ex_listing = Some [(''color'', ''red'')]"
    by code_simp
  have eq: "pi_quantity ex_listing = pd_quantity ex_product_data \<and>
            pi_price ex_listing = pd_price ex_product_data \<and>
            pi_price_rrc ex_listing = pd_price_rrc ex_product_data \<and>
            sort_key fst [(''color'', ''red'')] =
              sort_key fst (pd_product_parameters ex_product_data)"
    by code_simp
  note t = repeated_import_changes_nothing[OF run ok fk cons,
             of ex_db1 ex_shop ex_product_data ex_listing "[(''color'', ''red'')]"]
  have again: "import_products ?d1 7 ''u@example.org'' ex_payload_cube = (StatusOk 1, ?d1)"
    using t by (rule conjunct1)
  have noop: "update_or_create ex_db1 ex_shop ex_product_data = (Inr ex_listing, ex_db1)"
    using t si br eq by blast
  show ?thesis
    using run ok fk cons again si br noop by (intro conjI)
qed

text \<open>
  The claim fails for a payload that lists an id twice with different parameters: the
  scenario's shop imports the ball red and then blue; the run succeeds and leaves the
  ball's parameters in ProductParameter row 2. The identical second run replaces the
  parameters twice and leaves them in row 4.
\<close>

theorem repeated_import_duplicate_id_counterexample:
  "import_products ex_db1 7 ''u@example.org'' ex_payload_twice = (StatusOk 1, ex_db7) \<and>
   fst (import_products ex_db7 7 ''u@example.org'' ex_payload_twice) = StatusOk 1 \<and>
   rows (product_parameters ex_db7) =
     [\<lparr>pp_id = 2, pp_product_info = 1, pp_parameter = 1, pp_value = 2\<rparr>] \<and>
   rows (product_parameters (snd (import_products ex_db7 7 ''u@example.org'' ex_payload_twice))) =
     [\<lparr>pp_id = 4, pp_product_info = 1, pp_parameter = 1, pp_value = 2\<rparr>]"
proof -
  have "fst (import_products ex_db1 7 ''u@example.org'' ex_payload_twice) = StatusOk 1"
    by code_simp
  then have "import_products ex_db1 7 ''u@example.org'' ex_payload_twice = (StatusOk 1, ex_db7)"
    by (simp add: prod_eq_iff ex_db7_def)
  moreover have "fst (import_products ex_db7 7 ''u@example.org'' ex_payload_twice) = StatusOk 1"
    by code_simp
  moreover have "rows (product_parameters ex_db7) =
     [\<lparr>pp_id = 2, pp_product_info = 1, pp_parameter = 1, pp_value = 2\<rparr>]"
    by code_simp
  moreover have "rows (product_parameters (snd (import_products ex_db7 7 ''u@example.org'' ex_payload_twice))) =
     [\<lparr>pp_id = 4, pp_product_info = 1, pp_parameter = 1, pp_value = 2\<rparr>]"
    by code_simp
  ultimately show ?thesis by (intro conjI)
qed

section \<open>The global rows of the catalog\<close>

lemma grow_refl: "grow d d"
  by (simp add: grow_def globals_extend_def table_extends_refl)

lemma grow_trans: "grow d d1 \<Longrightarrow> grow d1 d2 \<Longrightarrow> grow d d2"
  unfolding grow_def globals_extend_def
  by (auto intro: table_extends_trans)

lemma get_or_create_names:
  assumes g: "get_or_create (\<lambda>r. nm r = n) mk t = (r, t')" and mk: "\<And>i. nm (mk i) = n"
  shows "table_extends t t'" and "distinct (map nm (rows t)) \<Longrightarrow> distinct (map nm (rows t'))"
    and "r \<in> set (rows t')" and "nm r = n"
proof -
  show "table_extends t t'"
    using g by (auto simp: get_or_create_def insert_row_def table_extends_def split: option.splits)
  show "distinct (map nm (rows t'))" if "distinct (map nm (rows t))"
    using g that mk
    by (auto simp: get_or_create_def insert_row_def find_None_iff split: option.splits)
  show "r \<in> set (rows t')" "nm r = n"
    using g mk
    by (auto simp: get_or_create_def insert_row_def find_Some_iff split: option.splits)
qed

lemma get_or_create_table_ok:
  assumes "get_or_create P mk t = (r, t')" and "\<And>i. k (mk i) = i" and "table_ok k t"
  shows "table_ok k t'"
  using assms table_ok_insert_row[of k t mk]
  by (auto simp: get_or_create_def split: option.splits)

lemma grow_Category_get_or_create:
  "grow d (snd (Category_get_or_create d n))"
proof -
  obtain c t where g: "get_or_create (\<lambda>c. category_name c = n)
                     (\<lambda>i. \<lparr>category_id = i, category_name = n\<rparr>) (categories d) = (c, t)"
    by (cases "get_or_create (\<lambda>c. category_name c = n)
                     (\<lambda>i. \<lparr>category_id = i, category_name = n\<rparr>) (categories d)") auto
  have e: "snd (Category_get_or_create d n) = d\<lparr>categories := t\<rparr>"
    by (simp add: Category_get_or_create_def g)
  show ?thesis
    unfolding e grow_def globals_extend_def names_unique_def
    using get_or_create_names(1,2)[OF g] get_or_create_table_ok[OF g, of category_id]
    by (simp add: table_extends_refl)
qed

lemma grow_Product_get_or_create:
  "grow d (snd (Product_get_or_create d n))"
proof -
  obtain c t where g: "get_or_create (\<lambda>c. product_name c = n)
                     (\<lambda>i. \<lparr>product_id = i, product_name = n\<rparr>) (products d) = (c, t)"
    by (cases "get_or_create (\<lambda>c. product_name c = n)
                     (\<lambda>i. \<lparr>product_id = i, product_name = n\<rparr>) (products d)") auto
  have e: "snd (Product_get_or_create d n) = d\<lparr>products := t\<rparr>"
    by (simp add: Product_get_or_create_def g)
  show ?thesis
    unfolding e grow_def globals_extend_def names_unique_def
    using get_or_create_names(1,2)[OF g] get_or_create_table_ok[OF g, of product_id]
    by (simp add: table_extends_refl)
qed

lemma grow_Parameter_get_or_create:
  "grow d (snd (Parameter_get_or_create d n))"
proof -
  obtain c t where g: "get_or_create (\<lambda>c. parameter_name c = n)
                     (\<lambda>i. \<lparr>parameter_id = i, parameter_name = n\<rparr>) (parameters d) = (c, t)"
    by (cases "get_or_create (\<lambda>c. parameter_name c = n)
                     (\<lambda>i. \<lparr>parameter_id = i, parameter_name = n\<rparr>) (parameters d)") auto
  have e: "snd (Parameter_get_or_create d n) = d\<lparr>parameters := t\<rparr>"
    by (simp add: Parameter_get_or_create_def g)
  show ?thesis
    unfolding e grow_def globals_extend_def names_unique_def
    using get_or_create_names(1,2)[OF g]
    by (simp add: table_extends_refl)
qed

lemma grow_ValueOfParameter_get_or_create:
  "grow d (snd (ValueOfParameter_get_or_create d n))"
proof -
  obtain c t where g: "get_or_create (\<lambda>c. value_value c = n)
                     (\<lambda>i. \<lparr>value_id = i, value_value = n\<rparr>) (parameter_values d) = (c, t)"
    by (cases "get_or_create (\<lambda>c. value_value c = n)
                     (\<lambda>i. \<lparr>value_id = i, value_value = n\<rparr>) (parameter_values d)") auto
  have e: "snd (ValueOfParameter_get_or_create d n) = d\<lparr>parameter_values := t\<rparr>"
    by (simp add: ValueOfParameter_get_or_create_def g)
  show ?thesis
    unfolding e grow_def globals_extend_def names_unique_def
    using get_or_create_names(1,2)[OF g]
    by (simp add: table_extends_refl)
qed

lemma grow_cong:
  assumes "categories d' = categories d" "products d' = products d" "parameters d' = parameters d"
          "parameter_values d' = parameter_values d" "shop_categories d' = shop_categories d"
  shows "grow d d'" and "grow d' d"
  using assms
  by (simp_all add: grow_def globals_extend_def names_unique_def table_extends_refl)

lemma grow_ShopCategory_get_or_create:
  assumes "ShopCategory_get_or_create d s c e = Inr (sc, d')"
  shows "grow d d'"
proof (cases "find (\<lambda>x. sc_shop x = shop_id s \<and> sc_category x = category_id c)
                (rows (shop_categories d))")
  case (Some a)
  then have "d' = d" using assms by (simp add: ShopCategory_get_or_create_def)
  then show ?thesis by (simp add: grow_refl)
next
  case None
  then have e: "d' = d\<lparr>shop_categories := snd (insert_row (\<lambda>i. \<lparr>sc_id = i, sc_shop = shop_id s,
                                 sc_category = category_id c,
                                 sc_external_id = e\<rparr>) (shop_categories d))\<rparr>"
    using assms by (auto simp: ShopCategory_get_or_create_def split: if_splits prod.splits)
  show ?thesis
    unfolding e grow_def globals_extend_def names_unique_def
    using table_ok_insert_row[of sc_id "shop_categories d" "\<lambda>i. \<lparr>sc_id = i, sc_shop = shop_id s,
                                 sc_category = category_id c, sc_external_id = e\<rparr>"]
    by (simp add: table_extends_refl) (simp add: table_extends_def insert_row_def)
qed

lemma grow_add_parameters_loop:
  "grow d (add_parameters_loop d i ps)"
proof (induction d i ps rule: add_parameters_loop.induct)
  case (1 d i)
  then show ?case by (simp add: grow_refl)
next
  case (2 d i pd rest)
  obtain par d1 where p: "Parameter_get_or_create d (fst pd) = (par, d1)"
    by (cases "Parameter_get_or_create d (fst pd)") auto
  obtain val d2 where v: "ValueOfParameter_get_or_create d1 (snd pd) = (val, d2)"
    by (cases "ValueOfParameter_get_or_create d1 (snd pd)") auto
  obtain pp t where ins: "insert_row (\<lambda>i'. \<lparr>pp_id = i', pp_product_info = i,
                                  pp_parameter = parameter_id par,
                                  pp_value = value_id val\<rparr>) (product_parameters d2) = (pp, t)"
    by (cases "insert_row (\<lambda>i'. \<lparr>pp_id = i', pp_product_info = i,
                                  pp_parameter = parameter_id par,
                                  pp_value = value_id val\<rparr>) (product_parameters d2)") auto
  have g1: "grow d d1" using grow_Parameter_get_or_create[of d "fst pd"] p by simp
  have g2: "grow d1 d2" using grow_ValueOfParameter_get_or_create[of d1 "snd pd"] v by simp
  have g3: "grow d2 (d2\<lparr>product_parameters := t\<rparr>)"
    by (rule grow_cong) simp_all
  have g4: "grow (d2\<lparr>product_parameters := t\<rparr>) (add_parameters_loop (d2\<lparr>product_parameters := t\<rparr>) i rest)"
    using "2.IH"[OF p[symmetric] refl v[symmetric] refl ins[symmetric] refl] .
  have "add_parameters_loop d i (pd # rest) =
          add_parameters_loop (d2\<lparr>product_parameters := t\<rparr>) i rest"
    by (simp add: p v ins)
  then show ?case
    using grow_trans[OF grow_trans[OF grow_trans[OF g1 g2] g3] g4] by simp
qed

lemma grow_add_parameters:
  "grow d (add_parameters d p ps r)"
proof -
  have "grow d (if r then d\<lparr>product_parameters :=
                 delete_rows (\<lambda>x. pp_product_info x = pi_id p) (product_parameters d)\<rparr> else d)"
    by (cases r) (simp_all add: grow_refl grow_cong)
  then show ?thesis
    unfolding add_parameters_def using grow_add_parameters_loop grow_trans by blast
qed

lemma grow_serializer_update:
  "grow d (snd (serializer_update d inst fu))"
proof -
  define d1 where "d1 = (case fu_product_parameters fu of None \<Rightarrow> d
                         | Some ps \<Rightarrow> add_parameters d inst ps True)"
  have g1: "grow d d1"
    by (simp add: d1_def grow_refl grow_add_parameters split: option.splits)
  have "grow d1 (snd (serializer_update d inst fu))"
    by (rule grow_cong) (simp_all add: serializer_update_def Let_def d1_def)
  with g1 show ?thesis by (rule grow_trans)
qed

lemma grow_ProductInfo_create:
  "ProductInfo_create d po s sc vd = Inr (p, d') \<Longrightarrow> grow d d'"
  by (rule grow_cong) (auto simp: ProductInfo_create_def insert_row_def split: if_splits)

lemma grow_serializer_create:
  "grow d (snd (serializer_create d s vd))"
proof -
  obtain co d1 where c: "Category_get_or_create d (cd_name (pd_category vd)) = (co, d1)"
    by (cases "Category_get_or_create d (cd_name (pd_category vd))") auto
  have g1: "grow d d1" using grow_Category_get_or_create[of d "cd_name (pd_category vd)"] c by simp
  show ?thesis
  proof (cases "ShopCategory_get_or_create d1 s co (cd_external_id (pd_category vd))")
    case (Inl e)
    then show ?thesis using g1 by (simp add: serializer_create_def c)
  next
    case (Inr x)
    then obtain sc d2 where sc: "ShopCategory_get_or_create d1 s co (cd_external_id (pd_category vd)) = Inr (sc, d2)"
      by (cases x) auto
    have g2: "grow d d2" using grow_trans[OF g1 grow_ShopCategory_get_or_create[OF sc]] .
    obtain po d3 where p: "Product_get_or_create d2 (pd_product_name vd) = (po, d3)"
      by (cases "Product_get_or_create d2 (pd_product_name vd)") auto
    have g3: "grow d d3"
      using grow_trans[OF g2 grow_Product_get_or_create[of d2 "pd_product_name vd"]] p by simp
    show ?thesis
    proof (cases "ProductInfo_create d3 po s sc vd")
      case (Inl e)
      then show ?thesis using g3 by (simp add: serializer_create_def c sc p)
    next
      case (Inr y)
      then obtain pinfo d4 where pc: "ProductInfo_create d3 po s sc vd = Inr (pinfo, d4)"
        by (cases y) auto
      have g4: "grow d d4" using grow_trans[OF g3 grow_ProductInfo_create[OF pc]] .
      show ?thesis
        using grow_trans[OF g4 grow_add_parameters[of d4 pinfo "pd_product_parameters vd" False]]
        by (simp add: serializer_create_def c sc p pc)
    qed
  qed
qed

lemma grow_update_or_create:
  "grow d (snd (update_or_create d s vd))"
proof (cases "shop_instance d s (pd_external_id vd)")
  case None
  then show ?thesis
    using grow_serializer_create[of d s vd] by (simp add: update_or_create_def)
next
  case (Some inst)
  show ?thesis
  proof (cases "brief_parameters d inst")
    case None
    then show ?thesis using Some by (simp add: update_or_create_def grow_refl)
  next
    case (Some old)
    have "snd (update_or_create d s vd) =
            (if changed_fields inst old vd \<noteq> no_fields
             then snd (serializer_update d inst (changed_fields inst old vd)) else d)"
      using \<open>shop_instance d s (pd_external_id vd) = Some inst\<close> Some
      by (simp add: update_or_create_def Let_def split: prod.splits)
    then show ?thesis
      using grow_serializer_update[of d inst "changed_fields inst old vd"]
      by (simp add: grow_refl)
  qed
qed

lemma grow_update_or_create_all:
  "grow d (snd (update_or_create_all d s vds))"
proof (induction vds arbitrary: d)
  case Nil
  then show ?case by (simp add: grow_refl)
next
  case (Cons vd vds)
  show ?case
  proof (cases "update_or_create d s vd")
    case (Pair r d1)
    have g1: "grow d d1" using grow_update_or_create[of d s vd] Pair by simp
    show ?thesis
    proof (cases r)
      case (Inl e)
      then show ?thesis using g1 Pair by simp
    next
      case (Inr p)
      then show ?thesis using grow_trans[OF g1 Cons.IH[of d1]] Pair by simp
    qed
  qed
qed

lemma grow_create_all:
  "grow d (snd (create_all d s vds))"
proof (induction vds arbitrary: d)
  case Nil
  then show ?case by (simp add: grow_refl)
next
  case (Cons vd vds)
  show ?case
  proof (cases "serializer_create d s vd")
    case (Pair r d1)
    have g1: "grow d d1" using grow_serializer_create[of d s vd] Pair by simp
    show ?thesis
    proof (cases r)
      case (Inl e)
      then show ?thesis using g1 Pair by simp
    next
      case (Inr p)
      then show ?thesis using grow_trans[OF g1 Cons.IH[of d1]] Pair by simp
    qed
  qed
qed

lemma grow_write_product_infos:
  "grow d (snd (write_product_infos d s c vds))"
proof -
  have "grow d (zero_absent d s vds)"
    by (rule grow_cong) (simp_all add: zero_absent_def)
  then show ?thesis
    using grow_create_all[of d s vds] grow_update_or_create_all[of "zero_absent d s vds" s vds]
    by (auto simp: write_product_infos_def intro: grow_trans)
qed

lemma grow_Shop_get_or_create:
  "Shop_get_or_create d u n e b = Inr (s, c, d1) \<Longrightarrow> grow d d1"
  by (rule grow_cong)
     (auto simp: Shop_get_or_create_def insert_row_def split: option.splits if_splits)

lemma grow_import_products:
  "grow d (snd (import_products d u e jd))"
proof (cases "parse_json_data jd")
  case (Inl a)
  then show ?thesis by (simp add: import_products_def grow_refl)
next
  case (Inr x)
  then obtain n cs cats goods where parse: "parse_json_data jd = Inr (n, cs, cats, goods)"
    by (cases x) auto
  let ?em = "case jd_email jd of None \<Rightarrow> e | Some x \<Rightarrow> x"
  let ?sp = "case jd_shipping_price jd of None \<Rightarrow> 300 | Some p \<Rightarrow> p"
  show ?thesis
  proof (cases "Shop_get_or_create d u n ?em ?sp")
    case (Inl a)
    then show ?thesis by (simp add: import_products_def parse grow_refl)
  next
    case (Inr y)
    then obtain s c d1 where sh: "Shop_get_or_create d u n ?em ?sp = Inr (s, c, d1)"
      by (cases y) auto
    have g1: "grow d d1" using sh by (rule grow_Shop_get_or_create)
    show ?thesis
    proof (cases "validate_products d1 cs cats goods")
      case (Inl err)
      then show ?thesis using g1 by (simp add: import_products_def parse sh)
    next
      case (Inr vds)
      have g: "grow d (snd (write_product_infos d1 s c vds))"
        using grow_trans[OF g1 grow_write_product_infos] .
      have "snd (import_products d u e jd) = snd (write_product_infos d1 s c vds)"
        by (simp add: import_products_def parse sh Inr split: prod.splits option.splits)
      then show ?thesis
        using g by simp
    qed
  qed
qed

lemma product_row_stable:
  assumes "grow d d'" and "product_row d p = Some r" and "pi_product p' = pi_product p"
  shows "product_row d' p' = Some r"
  using assms find_extends[of "products d" "products d'"]
  by (simp add: grow_def globals_extend_def product_row_def)

lemma category_row_stable:
  assumes g: "grow d d'" and c: "category_row d p = Some r" and e: "pi_category p' = pi_category p"
  shows "category_row d' p' = Some r"
proof -
  from c obtain sc where sc: "find (\<lambda>sc. sc_id sc = pi_category p) (rows (shop_categories d)) = Some sc"
    and r: "find (\<lambda>c. category_id c = sc_category sc) (rows (categories d)) = Some r"
    by (auto simp: category_row_def bind_eq_Some_conv)
  have "find (\<lambda>sc. sc_id sc = pi_category p) (rows (shop_categories d')) = Some sc"
    using g sc find_extends[of "shop_categories d" "shop_categories d'"] by (simp add: grow_def)
  moreover have "find (\<lambda>c. category_id c = sc_category sc) (rows (categories d')) = Some r"
    using g r find_extends[of "categories d" "categories d'"]
    by (simp add: grow_def globals_extend_def)
  ultimately show ?thesis by (simp add: category_row_def e)
qed

lemma ShopCategory_get_or_create_props:
  assumes ok: "table_ok sc_id (shop_categories d)"
      and g: "ShopCategory_get_or_create d s c e = Inr (sc, d')"
  shows "find (\<lambda>x. sc_id x = sc_id sc) (rows (shop_categories d')) = Some sc"
    and "sc_category sc = category_id c"
    and "categories d' = categories d" and "products d' = products d"
proof -
  show "categories d' = categories d" "products d' = products d"
    using g by (auto simp: ShopCategory_get_or_create_def insert_row_def
                  split: option.splits if_splits)
  show "sc_category sc = category_id c"
    using g by (auto simp: ShopCategory_get_or_create_def insert_row_def find_Some_iff
                  split: option.splits if_splits)
  show "find (\<lambda>x. sc_id x = sc_id sc) (rows (shop_categories d')) = Some sc"
  proof (cases "find (\<lambda>x. sc_shop x = shop_id s \<and> sc_category x = category_id c)
                  (rows (shop_categories d))")
    case (Some a)
    then have e: "d' = d" "sc = a" using g by (simp_all add: ShopCategory_get_or_create_def)
    have "a \<in> set (rows (shop_categories d))"
      using Some by (auto simp: find_Some_iff)
    then show ?thesis
      using table_ok_find_key[OF ok] e by simp
  next
    case None
    let ?mk = "\<lambda>i. \<lparr>sc_id = i, sc_shop = shop_id s, sc_category = category_id c,
                    sc_external_id = e\<rparr>"
    have e: "sc = fst (insert_row ?mk (shop_categories d))"
            "shop_categories d' = snd (insert_row ?mk (shop_categories d))"
      using g None by (auto simp: ShopCategory_get_or_create_def split: if_splits prod.splits)
    have ok': "table_ok sc_id (shop_categories d')"
      unfolding e(2) using ok by (intro table_ok_insert_row) simp_all
    have "sc \<in> set (rows (shop_categories d'))"
      by (simp add: e insert_row_def)
    then show ?thesis
      using table_ok_find_key[OF ok'] by simp
  qed
qed

lemma serializer_create_refs:
  assumes okp: "table_ok product_id (products d)"
      and okc: "table_ok category_id (categories d)"
      and oks: "table_ok sc_id (shop_categories d)"
      and c: "serializer_create d s vd = (Inr p, d')"
  shows "\<exists>r c. product_row d' p = Some r \<and> product_name r = pd_product_name vd \<and>
               category_row d' p = Some c \<and> category_name c = cd_name (pd_category vd)"
proof -
  obtain co d1 where cg: "Category_get_or_create d (cd_name (pd_category vd)) = (co, d1)"
    by (cases "Category_get_or_create d (cd_name (pd_category vd))") auto
  from c cg obtain sc d2 where
    sg: "ShopCategory_get_or_create d1 s co (cd_external_id (pd_category vd)) = Inr (sc, d2)"
    by (auto simp: serializer_create_def split: sum.splits)
  obtain po d3 where pg: "Product_get_or_create d2 (pd_product_name vd) = (po, d3)"
    by (cases "Product_get_or_create d2 (pd_product_name vd)") auto
  from c cg sg pg obtain d4 where
    pc: "ProductInfo_create d3 po s sc vd = Inr (p, d4)" and
    d': "d' = add_parameters d4 p (pd_product_parameters vd) False"
    by (auto simp: serializer_create_def split: sum.splits)
  obtain tc where tc: "get_or_create (\<lambda>c. category_name c = cd_name (pd_category vd))
                     (\<lambda>i. \<lparr>category_id = i, category_name = cd_name (pd_category vd)\<rparr>)
                     (categories d) = (co, tc)" and d1: "d1 = d\<lparr>categories := tc\<rparr>"
    using cg by (auto simp: Category_get_or_create_def split: prod.splits)
  have co: "find (\<lambda>x. category_id x = category_id co) (rows tc) = Some co"
           "category_name co = cd_name (pd_category vd)"
    using get_or_create_props(4,5)[OF okc _ _ tc] by simp_all
  have oks1: "table_ok sc_id (shop_categories d1)"
    using oks by (simp add: d1)
  note sp = ShopCategory_get_or_create_props[OF oks1 sg]
  have okp2: "table_ok product_id (products d2)"
    using okp sp(4) by (simp add: d1)
  obtain tp where tp: "get_or_create (\<lambda>p. product_name p = pd_product_name vd)
                     (\<lambda>i. \<lparr>product_id = i, product_name = pd_product_name vd\<rparr>)
                     (products d2) = (po, tp)" and d3: "d3 = d2\<lparr>products := tp\<rparr>"
    using pg by (auto simp: Product_get_or_create_def split: prod.splits)
  have po: "find (\<lambda>x. product_id x = product_id po) (rows tp) = Some po"
           "product_name po = pd_product_name vd"
    using get_or_create_props(4,5)[OF okp2 _ _ tp] by simp_all
  have p: "pi_product p = product_id po" "pi_category p = sc_id sc"
          "products d4 = products d3" "categories d4 = categories d3"
          "shop_categories d4 = shop_categories d3"
    using pc by (auto simp: ProductInfo_create_def insert_row_def split: if_splits)
  have pr4: "product_row d4 p = Some po"
    using po(1) by (simp add: product_row_def p d3)
  have cr4: "category_row d4 p = Some co"
    using sp(1,2,3) co(1) by (simp add: category_row_def p d3 d1)
  have g: "grow d4 d'"
    unfolding d' by (rule grow_add_parameters)
  show ?thesis
    using product_row_stable[OF g pr4 refl] category_row_stable[OF g cr4 refl] po(2) co(2)
    by blast
qed

lemma update_or_create_all_append:
  assumes "update_or_create_all d s (xs @ ys) = (None, d')"
  shows "\<exists>dm. update_or_create_all d s xs = (None, dm) \<and> update_or_create_all dm s ys = (None, d')"
  using assms
proof (induction xs arbitrary: d)
  case Nil
  then show ?case by simp
next
  case (Cons x xs)
  from Cons.prems obtain p d1 where
    u: "update_or_create d s x = (Inr p, d1)" and
    r: "update_or_create_all d1 s (xs @ ys) = (None, d')"
    by (auto split: prod.splits sum.splits)
  from Cons.IH[OF r] show ?case using u by simp
qed

lemma find_kept:
  assumes k: "kept_except sid E xs ys"
      and f: "find (\<lambda>p. pi_shop p = a \<and> pi_external_id p = i) xs = Some q"
  shows "\<exists>q'. find (\<lambda>p. pi_shop p = a \<and> pi_external_id p = i) ys = Some q' \<and>
              same_listing q q' \<and> (a \<noteq> sid \<longrightarrow> q' = q)"
proof -
  let ?P = "\<lambda>p. pi_shop p = a \<and> pi_external_id p = i"
  let ?R = "\<lambda>q q'. same_listing q q' \<and> (pi_shop q = sid \<and> pi_external_id q \<in> E \<or> q' = q)"
  from k obtain kept extra where ys: "ys = kept @ extra" and a: "list_all2 ?R xs kept"
    by (auto simp: kept_except_def)
  have "\<exists>q'. find ?P kept = Some q' \<and> same_listing q q' \<and> (a \<noteq> sid \<longrightarrow> q' = q)"
    using a f
  proof (induction xs kept rule: list_all2_induct)
    case Nil
    then show ?case by simp
  next
    case (Cons x xs y ys)
    have same: "?P x = ?P y" using Cons.hyps(1) by (auto simp: same_listing_def)
    show ?case
    proof (cases "?P x")
      case True
      then have "q = x" using Cons.prems by simp
      then show ?thesis using True same Cons.hyps(1) by auto
    next
      case False
      then have "find ?P xs = Some q" using Cons.prems by (auto split: if_splits)
      from Cons.IH[OF this] obtain q' where
        "find ?P ys = Some q'" "same_listing q q'" "a \<noteq> sid \<longrightarrow> q' = q"
        by blast
      moreover have "\<not> ?P y" using False same by simp
      ultimately show ?thesis by auto
    qed
  qed
  then show ?thesis by (auto simp: ys find_append)
qed

lemma shop_instance_kept:
  assumes "kept_except sid E (rows (product_infos d)) (rows (product_infos d'))"
      and "shop_instance d s0 i = Some q"
  shows "\<exists>q'. shop_instance d' s0 i = Some q' \<and> same_listing q q' \<and>
              (shop_id s0 \<noteq> sid \<longrightarrow> q' = q)"
  using find_kept[OF assms(1), of "shop_id s0" i q] assms(2)
  by (simp add: shop_instance_def)

lemma update_or_create_all_none:
  assumes ok: "catalog_ok d" and loop: "update_or_create_all d s vds = (None, d')"
      and ne: "\<forall>h \<in> set vds. pd_external_id h \<noteq> i"
      and none: "shop_instance d s i = None"
  shows "shop_instance d' s i = None"
proof -
  have "\<not> (pi_shop r = shop_id s \<and> pi_external_id r = i)"
    if "r \<in> set (rows (product_infos d'))" for r
    using update_or_create_all_rows_origin[OF ok loop that] ne none
    by (auto simp: shop_instance_def find_None_iff)
  then show ?thesis
    by (auto simp: shop_instance_def find_None_iff)
qed

lemma update_or_create_all_created:
  assumes ok: "catalog_ok d"
      and okp: "table_ok product_id (products d)"
      and okc: "table_ok category_id (categories d)"
      and oks: "table_ok sc_id (shop_categories d)"
      and loop: "update_or_create_all d s (pre @ vd # post) = (None, d')"
      and first: "\<forall>h \<in> set pre. pd_external_id h \<noteq> pd_external_id vd"
      and none: "shop_instance d s (pd_external_id vd) = None"
  shows "\<exists>p r c. shop_instance d' s (pd_external_id vd) = Some p \<and>
           product_row d' p = Some r \<and> product_name r = pd_product_name vd \<and>
           category_row d' p = Some c \<and> category_name c = cd_name (pd_category vd)"
proof -
  from update_or_create_all_append[OF loop] obtain dm where
    l1: "update_or_create_all d s pre = (None, dm)" and
    l2: "update_or_create_all dm s (vd # post) = (None, d')"
    by blast
  from l2 obtain p d1 where
    u: "update_or_create dm s vd = (Inr p, d1)" and
    l3: "update_or_create_all d1 s post = (None, d')"
    by (auto split: prod.splits sum.splits)
  have okm: "catalog_ok dm"
    using update_or_create_all_props[OF ok l1] by simp
  have gm: "grow d dm"
    using grow_update_or_create_all[of d s pre] l1 by simp
  have tm: "table_ok product_id (products dm)" "table_ok category_id (categories dm)"
           "table_ok sc_id (shop_categories dm)"
    using gm okp okc oks by (simp_all add: grow_def)
  have nm: "shop_instance dm s (pd_external_id vd) = None"
    using update_or_create_all_none[OF ok l1 first none] .
  have c: "serializer_create dm s vd = (Inr p, d1)"
    using u nm by (simp add: update_or_create_None)
  from serializer_create_refs[OF tm c] obtain r cr where
    refs: "product_row d1 p = Some r" "product_name r = pd_product_name vd"
          "category_row d1 p = Some cr" "category_name cr = cd_name (pd_category vd)"
    by blast
  note est = update_or_create_establishes[OF okm u]
  have k: "kept_except (shop_id s) (set (map pd_external_id post))
             (rows (product_infos d1)) (rows (product_infos d'))"
    using update_or_create_all_props[OF est(1) l3] by simp
  from shop_instance_kept[OF k est(4)] obtain p' where
    p': "shop_instance d' s (pd_external_id vd) = Some p'" "same_listing p p'"
    by blast
  have g: "grow d1 d'"
    using grow_update_or_create_all[of d1 s post] l3 by simp
  have "product_row d' p' = Some r"
    using product_row_stable[OF g refs(1)] p'(2) by (simp add: same_listing_def)
  moreover have "category_row d' p' = Some cr"
    using category_row_stable[OF g refs(3)] p'(2) by (simp add: same_listing_def)
  ultimately show ?thesis using p'(1) refs(2,4) by blast
qed

lemma brief_parameters_cong:
  assumes "parameters d' = parameters d" "parameter_values d' = parameter_values d"
          "product_parameters d' = product_parameters d"
  shows "brief_parameters d' q = brief_parameters d q"
  using assms
  by (simp add: brief_parameters_def instance_parameters_def str_parameter_def str_value_def)

lemma update_or_create_other_shop:
  assumes ok: "catalog_ok d"
      and u: "update_or_create d s vd = (Inr p, d')"
      and q: "q \<in> set (rows (product_infos d))"
      and ne: "pi_shop q \<noteq> shop_id s"
      and b: "brief_parameters d q = Some old"
  shows "brief_parameters d' q = Some old"
proof -
  have iok: "table_ok pi_id (product_infos d)"
    using ok by (simp add: catalog_ok_def)
  have qlt: "pi_id q < next_pk (product_infos d)"
    using iok q by (simp add: table_ok_def)
  have both: "instance_parameters d' q = instance_parameters d q \<and>
              table_extends (parameters d) (parameters d') \<and>
              table_extends (parameter_values d) (parameter_values d')"
  proof (cases "shop_instance d s (pd_external_id vd)")
    case None
    then have c: "serializer_create d s vd = (Inr p, d')"
      using u by (simp add: update_or_create_None)
    note ef = serializer_create_effect[OF ok c]
    from ef(13) obtain new where new: "rows (product_parameters d') = rows (product_parameters d) @ new"
        "\<forall>r \<in> set new. pp_product_info r = pi_id p" by blast
    have "instance_parameters d' q = instance_parameters d q"
      using new qlt ef(2) by (auto simp: instance_parameters_def filter_empty_conv)
    then show ?thesis using ef(11,12) by simp
  next
    case (Some inst)
    note ef = update_effect[OF ok Some u]
    note ins = shop_instance_Some[OF Some]
    have neq: "pi_id q \<noteq> pi_id inst"
      using ins ne table_ok_inj[OF iok q, of inst] by auto
    have fc: "filter (\<lambda>x. pp_product_info x \<noteq> pi_id inst \<and> pp_product_info x = pi_id q) xs =
              filter (\<lambda>r. pp_product_info r = pi_id q) xs" for xs
      using neq by (intro filter_cong) auto
    from ef(7) have "instance_parameters d' q = instance_parameters d q"
      using neq fc by (auto simp: instance_parameters_def filter_empty_conv)
    then show ?thesis using ef(5,6) by simp
  qed
  show ?thesis
    using brief_stable[OF b] both by blast
qed

lemma update_or_create_all_other_shop:
  assumes "catalog_ok d" and "update_or_create_all d s vds = (None, d')"
      and "q \<in> set (rows (product_infos d))" and "pi_shop q \<noteq> shop_id s"
      and "brief_parameters d q = Some old"
  shows "brief_parameters d' q = Some old"
  using assms
proof (induction vds arbitrary: d)
  case Nil
  then show ?case by simp
next
  case (Cons vd vds)
  from Cons.prems(2) obtain p d1 where
    u: "update_or_create d s vd = (Inr p, d1)" and l: "update_or_create_all d1 s vds = (None, d')"
    by (auto split: prod.splits sum.splits)
  have ok1: "catalog_ok d1"
    using update_or_create_establishes(1)[OF Cons.prems(1) u] .
  have q1: "q \<in> set (rows (product_infos d1))"
    using kept_except_unchanged[OF update_or_create_kept[OF Cons.prems(1) u] Cons.prems(3)]
          Cons.prems(4) by simp
  have b1: "brief_parameters d1 q = Some old"
    using update_or_create_other_shop[OF Cons.prems(1) u Cons.prems(3,4,5)] .
  show ?case
    using Cons.IH[OF ok1 l q1 Cons.prems(4) b1] .
qed

lemma import_loop_shape:
  assumes run: "import_products d u e jd = (StatusOk sid, d')"
      and ok: "catalog_ok d"
  shows "\<exists>n cs cats goods s dz vds.
     parse_json_data jd = Inr (n, cs, cats, goods) \<and> users_shop d' u = Some s \<and>
     sid = shop_id s \<and> validate_products d cs cats goods = Inr vds \<and> catalog_ok dz \<and>
     update_or_create_all dz s vds = (None, d') \<and>
     kept_except (shop_id s) UNIV (rows (product_infos d)) (rows (product_infos dz)) \<and>
     grow d dz \<and> parameters dz = parameters d \<and> parameter_values dz = parameter_values d \<and>
     product_parameters dz = product_parameters d \<and>
     (\<forall>i. shop_instance d s i = None \<longrightarrow> shop_instance dz s i = None)"
proof -
  from import_run_shape[OF run] obtain n cs cats goods s created d0 vds where
    parse: "parse_json_data jd = Inr (n, cs, cats, goods)" and
    sh: "Shop_get_or_create d u n (case jd_email jd of None \<Rightarrow> e | Some x \<Rightarrow> x)
           (case jd_shipping_price jd of None \<Rightarrow> 300 | Some p \<Rightarrow> p) = Inr (s, created, d0)" and
    val: "validate_products d0 cs cats goods = Inr vds" and
    w: "write_product_infos d0 s created vds = (None, d')" and
    sid: "sid = shop_id s"
    by blast
  note sg = Shop_get_or_create_result[OF sh]
  have tabs: "product_infos d0 = product_infos d" "parameters d0 = parameters d"
             "parameter_values d0 = parameter_values d"
             "product_parameters d0 = product_parameters d"
  proof -
    have "product_infos (d0\<lparr>shops := shops d\<rparr>) = product_infos d0"
         "parameters (d0\<lparr>shops := shops d\<rparr>) = parameters d0"
         "parameter_values (d0\<lparr>shops := shops d\<rparr>) = parameter_values d0"
         "product_parameters (d0\<lparr>shops := shops d\<rparr>) = product_parameters d0"
      by simp_all
    then show "product_infos d0 = product_infos d" "parameters d0 = parameters d"
             "parameter_values d0 = parameter_values d"
             "product_parameters d0 = product_parameters d"
      unfolding sg(2) by simp_all
  qed
  have ok0: "catalog_ok d0"
    using ok by (simp add: catalog_ok_def tabs)
  have g0: "grow d d0"
    using sh by (rule grow_Shop_get_or_create)
  have "shops d' = shops d0"
    using w by (rule shops_write_product_infos)
  then have us: "users_shop d' u = Some s"
    using sg(1) by (simp add: users_shop_def)
  have val': "validate_products d cs cats goods = Inr vds"
    using val validate_products_db[of d cs cats goods d0] by simp
  define z :: "product_info \<Rightarrow> product_info" where
    "z = (\<lambda>p. if pi_shop p = shop_id s \<and> pi_external_id p \<notin> set (map pd_external_id vds)
              then p\<lparr>pi_quantity := 0\<rparr> else p)"
  show ?thesis
  proof (cases "created \<or> \<not> shop_has_product_infos d0 s")
    case True
    then have "create_all d0 s vds = (None, d')"
      using w by (simp add: write_product_infos_def)
    from create_all_as_update_or_create_all[OF ok0 this]
    have loop: "update_or_create_all d0 s vds = (None, d')" .
    have k: "kept_except (shop_id s) UNIV (rows (product_infos d)) (rows (product_infos d0))"
      by (simp add: tabs kept_except_refl)
    have n: "\<forall>i. shop_instance d s i = None \<longrightarrow> shop_instance d0 s i = None"
      by (simp add: shop_instance_def tabs)
    show ?thesis
      using parse us sid val' ok0 loop k g0 tabs n by blast
  next
    case False
    let ?dz = "zero_absent d0 s vds"
    have loop: "update_or_create_all ?dz s vds = (None, d')"
      using w False by (simp add: write_product_infos_def)
    have okz: "catalog_ok ?dz"
      using ok0 by (rule catalog_ok_zero_absent)
    have rz: "rows (product_infos ?dz) = map z (rows (product_infos d))"
      by (simp add: zero_absent_def update_rows_def z_def tabs)
    have "list_all2 (\<lambda>q q'. same_listing q q' \<and>
             (pi_shop q = shop_id s \<and> pi_external_id q \<in> UNIV \<or> q' = q))
           (rows (product_infos d)) (map z (rows (product_infos d)))"
      by (simp add: list_all2_map2 list_all2_same same_listing_def z_def)
    then have k: "kept_except (shop_id s) UNIV (rows (product_infos d)) (rows (product_infos ?dz))"
      unfolding kept_except_def rz
      by (intro exI[of _ "map z (rows (product_infos d))"] exI[of _ "[]"]) simp
    have gz: "grow d ?dz"
      by (rule grow_trans[OF g0]) (rule grow_cong, simp_all add: zero_absent_def)
    have tz: "parameters ?dz = parameters d" "parameter_values ?dz = parameter_values d"
             "product_parameters ?dz = product_parameters d"
      by (simp_all add: zero_absent_def tabs)
    have n: "\<forall>i. shop_instance d s i = None \<longrightarrow> shop_instance ?dz s i = None"
      by (auto simp: shop_instance_def rz find_None_iff z_def)
    show ?thesis
      using parse us sid val' okz loop k gz tz n by blast
  qed
qed

lemma validate_products_names:
  "validate_products d cs cats goods = Inr vds \<Longrightarrow> list_all2 (names_from_source cats) goods vds"
proof (induction goods arbitrary: vds)
  case Nil
  then show ?case by simp
next
  case (Cons g goods)
  from Cons.prems obtain pd vd rest where
    b: "build_product_data cs cats g = Inr pd" and v: "is_valid d NoContext pd = Inr vd"
    and r: "validate_products d cs cats goods = Inr rest" and e: "vds = vd # rest"
    by (auto split: sum.splits)
  have "names_from_source cats g vd"
    using build_product_data_fields(6,7)[OF b] is_valid_fields(6,7)[OF v]
    by (simp add: names_from_source_def good_product_def)
  then show ?case
    using Cons.IH[OF r] e by simp
qed

lemma good_category_parse:
  "parse_json_data jd = Inr (n, cs, cats, goods) \<Longrightarrow>
   good_category jd g =
     Option.bind (Option.bind (ps_category g) cats)
       (\<lambda>c. map_option cd_name (PartnerCategorySerializer c))"
  by (auto simp: parse_json_data_def good_category_def split: option.splits sum.splits)

lemma from_source_first:
  assumes a: "list_all2 from_source (pre @ g # post) vds"
      and b: "list_all2 (names_from_source cats) (pre @ g # post) vds"
      and f: "\<forall>h \<in> set pre. ps_id h \<noteq> ps_id g"
  shows "\<exists>pre' vd post'. vds = pre' @ vd # post' \<and> from_source g vd \<and>
           names_from_source cats g vd \<and>
           (\<forall>h \<in> set pre'. pd_external_id h \<noteq> pd_external_id vd)"
proof -
  have ab: "list_all2 (\<lambda>g vd. from_source g vd \<and> names_from_source cats g vd)
              (pre @ g # post) vds"
    using a b by (auto simp: list_all2_conv_all_nth)
  then obtain pre' rest where v1: "vds = pre' @ rest" and
    p: "list_all2 (\<lambda>g vd. from_source g vd \<and> names_from_source cats g vd) pre pre'" and
    r: "list_all2 (\<lambda>g vd. from_source g vd \<and> names_from_source cats g vd) (g # post) rest"
    by (auto simp: list_all2_append1)
  from r obtain vd post' where v2: "rest = vd # post'" and g: "from_source g vd"
    "names_from_source cats g vd"
    by (auto simp: list_all2_Cons1)
  have "pd_external_id h \<noteq> pd_external_id vd" if "h \<in> set pre'" for h
  proof -
    from that obtain n where n: "n < length pre'" "pre' ! n = h"
      by (auto simp: in_set_conv_nth)
    have len: "length pre = length pre'" using p by (rule list_all2_lengthD)
    have "from_source (pre ! n) h"
      using list_all2_nthD2[OF p n(1)] n(2) by simp
    moreover have "pre ! n \<in> set pre" using n(1) len by simp
    ultimately show ?thesis
      using f g(1) by (auto simp: from_source_def)
  qed
  then show ?thesis using v1 v2 g by blast
qed

lemma import_created:
  assumes run: "import_products d u e jd = (StatusOk sid, d')"
      and ok: "store_ok d"
      and shop: "users_shop d' u = Some s"
      and goods: "jd_goods jd = Some (pre @ g # post)"
      and first: "\<forall>h \<in> set pre. ps_id h \<noteq> ps_id g"
      and i: "ps_id g = Some i"
      and none: "shop_instance d s i = None"
  shows "\<exists>p r c. shop_instance d' s i = Some p \<and>
           product_row d' p = Some r \<and> good_product g = Some (product_name r) \<and>
           category_row d' p = Some c \<and> good_category jd g = Some (category_name c)"
proof -
  have cok: "catalog_ok d" using ok by (simp add: store_ok_def)
  from import_loop_shape[OF run cok] obtain n cs cats goods' s' dz vds where
    parse: "parse_json_data jd = Inr (n, cs, cats, goods')" and
    us: "users_shop d' u = Some s'" and
    val: "validate_products d cs cats goods' = Inr vds" and
    okz: "catalog_ok dz" and
    loop: "update_or_create_all dz s' vds = (None, d')" and
    gz: "grow d dz" and
    nz: "\<forall>i. shop_instance d s' i = None \<longrightarrow> shop_instance dz s' i = None"
    by blast
  have s': "s' = s" using us shop by simp
  have g': "goods' = pre @ g # post"
    using parse_json_data_goods[OF parse] goods by simp
  have fs: "list_all2 from_source (pre @ g # post) vds"
    using validate_products_from_source[OF val] g' by simp
  have ns: "list_all2 (names_from_source cats) (pre @ g # post) vds"
    using validate_products_names[OF val] g' by simp
  from from_source_first[OF fs ns first] obtain pre' vd post' where
    v: "vds = pre' @ vd # post'" and fv: "from_source g vd" and
    nv: "names_from_source cats g vd" and
    f': "\<forall>h \<in> set pre'. pd_external_id h \<noteq> pd_external_id vd"
    by blast
  have iv: "pd_external_id vd = i"
    using fv i by (simp add: from_source_def)
  have tz: "table_ok product_id (products dz)" "table_ok category_id (categories dz)"
           "table_ok sc_id (shop_categories dz)"
    using gz ok by (simp_all add: grow_def store_ok_def)
  have none': "shop_instance dz s (pd_external_id vd) = None"
    using nz none s' iv by simp
  from update_or_create_all_created[OF okz tz loop[unfolded v s'] f' none']
  obtain p r c where
    "shop_instance d' s (pd_external_id vd) = Some p" "product_row d' p = Some r"
    "product_name r = pd_product_name vd" "category_row d' p = Some c"
    "category_name c = cd_name (pd_category vd)"
    by blast
  then show ?thesis
    using nv iv good_category_parse[OF parse, of g]
    by (auto simp: names_from_source_def)
qed

lemma import_upserted:
  assumes run: "import_products d u e jd = (StatusOk sid, d')"
      and ok: "catalog_ok d"
      and shop: "users_shop d' u = Some s"
      and goods: "jd_goods jd = Some (pre @ g # post)"
      and last: "\<forall>h \<in> set post. ps_id h \<noteq> ps_id g"
  shows "upserted d' s g"
proof -
  from import_loop_shape[OF run ok] obtain n cs cats goods' s' dz vds where
    parse: "parse_json_data jd = Inr (n, cs, cats, goods')" and
    us: "users_shop d' u = Some s'" and
    val: "validate_products d cs cats goods' = Inr vds" and
    okz: "catalog_ok dz" and
    loop: "update_or_create_all dz s' vds = (None, d')"
    by blast
  have s': "s' = s" using us shop by simp
  have g': "goods' = pre @ g # post"
    using parse_json_data_goods[OF parse] goods by simp
  have fs: "list_all2 from_source (pre @ g # post) vds"
    using validate_products_from_source[OF val] g' by simp
  from from_source_last[OF fs last] obtain pre' vd post' where
    v: "vds = pre' @ vd # post'" and fv: "from_source g vd" and
    l: "\<forall>h \<in> set post'. pd_external_id h \<noteq> pd_external_id vd"
    by blast
  have "fields_match d' s vd \<and> parameters_match d' s vd"
    using update_or_create_all_props[OF okz loop] v l s' by blast
  then show ?thesis
    using matches_upserted[OF fv] by simp
qed

lemma import_store_ok:
  assumes run: "import_products d u e jd = (StatusOk sid, d')" and ok: "store_ok d"
  shows "store_ok d'" and "grow d d'"
proof -
  show g: "grow d d'"
    using grow_import_products[of d u e jd] run by simp
  have cok: "catalog_ok d" using ok by (simp add: store_ok_def)
  from import_loop_shape[OF run cok] obtain s' dz vds where
    okz: "catalog_ok dz" and loop: "update_or_create_all dz s' vds = (None, d')"
    by blast
  have "catalog_ok d'"
    using update_or_create_all_props[OF okz loop] by simp
  then show "store_ok d'"
    using g ok by (simp add: store_ok_def grow_def)
qed

lemma import_kept:
  assumes run: "import_products d u e jd = (StatusOk sid, d')" and ok: "catalog_ok d"
  shows "kept_except sid UNIV (rows (product_infos d)) (rows (product_infos d'))"
proof -
  from import_loop_shape[OF run ok] obtain s' dz vds where
    sid: "sid = shop_id s'" and
    okz: "catalog_ok dz" and loop: "update_or_create_all dz s' vds = (None, d')" and
    k: "kept_except (shop_id s') UNIV (rows (product_infos d)) (rows (product_infos dz))"
    by blast
  have "kept_except (shop_id s') (set (map pd_external_id vds))
          (rows (product_infos dz)) (rows (product_infos d'))"
    using update_or_create_all_props[OF okz loop] by simp
  from kept_except_trans[OF k this] show ?thesis
    by (simp add: sid)
qed

lemma import_keeps_other:
  assumes run: "import_products d u e jd = (StatusOk sid, d')" and ok: "catalog_ok d"
      and si: "shop_instance d s0 i = Some q" and ne: "shop_id s0 \<noteq> sid"
  shows "shop_instance d' s0 i = Some q"
    and "brief_parameters d q = Some old \<Longrightarrow> brief_parameters d' q = Some old"
proof -
  show "shop_instance d' s0 i = Some q"
    using shop_instance_kept[OF import_kept[OF run ok] si] ne by auto
  show "brief_parameters d' q = Some old" if b: "brief_parameters d q = Some old"
  proof -
    from import_loop_shape[OF run ok] obtain s' dz vds where
      sid: "sid = shop_id s'" and
      okz: "catalog_ok dz" and loop: "update_or_create_all dz s' vds = (None, d')" and
      k: "kept_except (shop_id s') UNIV (rows (product_infos d)) (rows (product_infos dz))" and
      t: "parameters dz = parameters d" "parameter_values dz = parameter_values d"
         "product_parameters dz = product_parameters d"
      by blast
    note qs = shop_instance_Some[OF si]
    have qz: "q \<in> set (rows (product_infos dz))"
      using kept_except_unchanged[OF k, of q] qs ne sid by simp
    have bz: "brief_parameters dz q = Some old"
      using b brief_parameters_cong[OF t, of q] by simp
    show ?thesis
      using update_or_create_all_other_shop[OF okz loop qz _ bz] qs ne sid by simp
  qed
qed

lemma upserted_cong:
  assumes "upserted d s g" and "\<And>i q. shop_instance d s i = Some q \<Longrightarrow> shop_instance d' s i = Some q"
      and "\<And>i q old. shop_instance d s i = Some q \<Longrightarrow> brief_parameters d q = Some old \<Longrightarrow>
             brief_parameters d' q = Some old"
  shows "upserted d' s g"
proof -
  from assms(1) obtain i q old where
    f: "ps_id g = Some i" "shop_instance d s i = Some q" "brief_parameters d q = Some old"
    by (auto simp: upserted_def split: option.splits)
  show ?thesis
    using assms(1) f assms(2)[OF f(2)] assms(3)[OF f(2,3)]
    by (simp add: upserted_def)
qed

lemma listings_kept_trans:
  assumes "listings_kept t t1" and "listings_kept t1 t2"
  shows "listings_kept t t2"
  using assms
  by (auto simp: listings_kept_def list_all2_conv_all_nth same_listing_def)

lemma distinct_filter_single:
  "distinct (map f xs) \<Longrightarrow> x \<in> set xs \<Longrightarrow> filter (\<lambda>r. f r = f x) xs = [x]"
proof (induction xs)
  case Nil
  then show ?case by simp
next
  case (Cons a xs)
  show ?case
  proof (cases "a = x")
    case True
    have "f x \<notin> f ` set xs"
      using Cons.prems(1) True by simp
    then have "filter (\<lambda>r. f r = f x) xs = []"
      unfolding filter_empty_conv by (metis imageI)
    then show ?thesis using True by simp
  next
    case False
    then have "x \<in> set xs" using Cons.prems(2) by simp
    moreover then have "f a \<noteq> f x" using Cons.prems(1) by auto
    ultimately show ?thesis using Cons by simp
  qed
qed

lemma names_unique_shared:
  assumes "names_unique d"
  shows "shared_parameters d"
proof -
  have p: "i = j" if "str_parameter d i \<noteq> None" "str_parameter d i = str_parameter d j" for i j
  proof -
    from that(1) obtain r where
      r: "find (\<lambda>x. parameter_id x = i) (rows (parameters d)) = Some r"
      by (auto simp: str_parameter_def)
    from that(2) r obtain r' where
      r': "find (\<lambda>x. parameter_id x = j) (rows (parameters d)) = Some r'" and
      n: "parameter_name r = parameter_name r'"
      by (cases "find (\<lambda>x. parameter_id x = j) (rows (parameters d))")
         (auto simp: str_parameter_def)
    have "r \<in> set (rows (parameters d))" "r' \<in> set (rows (parameters d))"
         "parameter_id r = i" "parameter_id r' = j"
      using r r' by (auto simp: find_Some_iff)
    moreover have "inj_on parameter_name (set (rows (parameters d)))"
      using assms by (simp add: names_unique_def distinct_map)
    ultimately show ?thesis using n by (auto dest: inj_onD)
  qed
  have v: "i = j" if "str_value d i \<noteq> None" "str_value d i = str_value d j" for i j
  proof -
    from that(1) obtain r where
      r: "find (\<lambda>x. value_id x = i) (rows (parameter_values d)) = Some r"
      by (auto simp: str_value_def)
    from that(2) r obtain r' where
      r': "find (\<lambda>x. value_id x = j) (rows (parameter_values d)) = Some r'" and
      n: "value_value r = value_value r'"
      by (cases "find (\<lambda>x. value_id x = j) (rows (parameter_values d))")
         (auto simp: str_value_def)
    have "r \<in> set (rows (parameter_values d))" "r' \<in> set (rows (parameter_values d))"
         "value_id r = i" "value_id r' = j"
      using r r' by (auto simp: find_Some_iff)
    moreover have "inj_on value_value (set (rows (parameter_values d)))"
      using assms by (simp add: names_unique_def distinct_map)
    ultimately show ?thesis using n by (auto dest: inj_onD)
  qed
  show ?thesis
    unfolding shared_parameters_def using p v by blast
qed

lemma import_sid:
  assumes run: "import_products d u e jd = (StatusOk sid, d')" and ok: "catalog_ok d"
      and shop: "users_shop d' u = Some s"
  shows "sid = shop_id s"
  using import_loop_shape[OF run ok] shop by auto

lemma product_row_filter:
  assumes "names_unique d" and "product_row d p = Some r"
  shows "filter (\<lambda>x. product_name x = product_name r) (rows (products d)) = [r]"
    and "product_id r = pi_product p"
proof -
  have "r \<in> set (rows (products d))" "product_id r = pi_product p"
    using assms(2) by (auto simp: product_row_def find_Some_iff)
  then show "filter (\<lambda>x. product_name x = product_name r) (rows (products d)) = [r]"
    "product_id r = pi_product p"
    using assms(1) distinct_filter_single[of product_name "rows (products d)" r]
    by (simp_all add: names_unique_def)
qed

lemma category_row_filter:
  assumes "names_unique d" and "category_row d p = Some r"
  shows "filter (\<lambda>x. category_name x = category_name r) (rows (categories d)) = [r]"
proof -
  have "r \<in> set (rows (categories d))"
    using assms(2) by (auto simp: category_row_def bind_eq_Some_conv find_Some_iff)
  then show ?thesis
    using assms(1) distinct_filter_single[of category_name "rows (categories d)" r]
    by (simp add: names_unique_def)
qed

section \<open>C8: the imports of two shops share the global rows\<close>

text \<open>
  C8, as the code has it. Two shops import one after the other, both runs return status
  ok, and before the first run product names, category names, parameter names and
  parameter values are unique. Then after the second run the names are still unique and
  the four global tables have only grown; ProductParameter rows that refer to a
  parameter of the same name, or to a value of the same text, refer to the same row; the
  listings that existed before the two runs are still there with their shop, category,
  product and external\_id (an import never re-points an existing listing); every good
  that is the last of its id in its payload is upserted, so the listing's parameters are
  the good's by name; and when each shop's run creates a listing (from the first good
  with an id that the shop does not list yet), each of the two listings references the
  one product row and the one category row with the names of its good, so that for
  equal product names both listings reference the same product, and for equal category
  names the same category. (The store's primary keys are unique and the listing key of
  a ProductParameter row was handed out by the listing table's sequence.)
\<close>

theorem imports_share_global_rows:
  assumes runA: "import_products d uA eA jdA = (StatusOk sidA, d1)"
      and runB: "import_products d1 uB eB jdB = (StatusOk sidB, d2)"
      and ok: "store_ok d"
      and shopA: "users_shop d1 uA = Some sA"
      and shopB: "users_shop d2 uB = Some sB"
      and diff: "shop_id sA \<noteq> shop_id sB"
      and gA: "jd_goods jdA = Some (preA @ gA # postA)" "ps_id gA = Some iA"
              "\<forall>h \<in> set preA. ps_id h \<noteq> ps_id gA" "shop_instance d sA iA = None"
      and gB: "jd_goods jdB = Some (preB @ gB # postB)" "ps_id gB = Some iB"
              "\<forall>h \<in> set preB. ps_id h \<noteq> ps_id gB" "shop_instance d1 sB iB = None"
      and lA: "jd_goods jdA = Some (preA' @ lA # postA')" "\<forall>h \<in> set postA'. ps_id h \<noteq> ps_id lA"
      and lB: "jd_goods jdB = Some (preB' @ lB # postB')" "\<forall>h \<in> set postB'. ps_id h \<noteq> ps_id lB"
  shows "names_unique d2 \<and> globals_extend d d2 \<and> shared_parameters d2 \<and>
         listings_kept (product_infos d) (product_infos d2) \<and>
         upserted d2 sA lA \<and> upserted d2 sB lB \<and>
         (\<exists>pA pB rA rB cA cB.
            shop_instance d2 sA iA = Some pA \<and> shop_instance d2 sB iB = Some pB \<and>
            product_row d2 pA = Some rA \<and> good_product gA = Some (product_name rA) \<and>
            product_row d2 pB = Some rB \<and> good_product gB = Some (product_name rB) \<and>
            category_row d2 pA = Some cA \<and> good_category jdA gA = Some (category_name cA) \<and>
            category_row d2 pB = Some cB \<and> good_category jdB gB = Some (category_name cB) \<and>
            filter (\<lambda>r. product_name r = product_name rA) (rows (products d2)) = [rA] \<and>
            filter (\<lambda>r. product_name r = product_name rB) (rows (products d2)) = [rB] \<and>
            filter (\<lambda>c. category_name c = category_name cA) (rows (categories d2)) = [cA] \<and>
            filter (\<lambda>c. category_name c = category_name cB) (rows (categories d2)) = [cB] \<and>
            (good_product gA = good_product gB \<longrightarrow> pi_product pA = pi_product pB) \<and>
            (good_category jdA gA = good_category jdB gB \<longrightarrow> cA = cB))"
proof -
  have cok: "catalog_ok d" using ok by (simp add: store_ok_def)
  note s1 = import_store_ok[OF runA ok]
  have cok1: "catalog_ok d1" using s1(1) by (simp add: store_ok_def)
  note s2 = import_store_ok[OF runB s1(1)]
  have nu: "names_unique d2" using s2(1) by (simp add: store_ok_def)
  have ge: "globals_extend d d2"
    using grow_trans[OF s1(2) s2(2)] by (simp add: grow_def)
  have sp: "shared_parameters d2"
    using nu by (rule names_unique_shared)
  have refl: "list_all2 same_listing xs xs" for xs
    by (simp add: list_all2_same same_listing_def)
  have lk: "listings_kept (product_infos d) (product_infos d2)"
    using listings_kept_trans[OF kept_except_listings_kept[OF import_kept[OF runA cok] refl]
            kept_except_listings_kept[OF import_kept[OF runB cok1] refl]] .
  have sidB: "sidB = shop_id sB"
    using import_sid[OF runB cok1 shopB] .
  have ne: "shop_id sA \<noteq> sidB" using diff sidB by simp
  have uA1: "upserted d1 sA lA"
    using import_upserted[OF runA cok shopA lA] .
  have uA: "upserted d2 sA lA"
    using uA1 import_keeps_other[OF runB cok1 _ ne]
    by (rule upserted_cong)
  have uB: "upserted d2 sB lB"
    using import_upserted[OF runB cok1 shopB lB] .
  from import_created[OF runA ok shopA gA(1,3,2,4)] obtain pA rA cA where
    A: "shop_instance d1 sA iA = Some pA" "product_row d1 pA = Some rA"
       "good_product gA = Some (product_name rA)" "category_row d1 pA = Some cA"
       "good_category jdA gA = Some (category_name cA)"
    by blast
  have A2: "shop_instance d2 sA iA = Some pA" "product_row d2 pA = Some rA"
           "category_row d2 pA = Some cA"
    using import_keeps_other(1)[OF runB cok1 A(1) ne]
          product_row_stable[OF s2(2) A(2)] category_row_stable[OF s2(2) A(4)]
    by simp_all
  from import_created[OF runB s1(1) shopB gB(1,3,2,4)] obtain pB rB cB where
    B: "shop_instance d2 sB iB = Some pB" "product_row d2 pB = Some rB"
       "good_product gB = Some (product_name rB)" "category_row d2 pB = Some cB"
       "good_category jdB gB = Some (category_name cB)"
    by blast
  note fA = product_row_filter[OF nu A2(2)] category_row_filter[OF nu A2(3)]
  note fB = product_row_filter[OF nu B(2)] category_row_filter[OF nu B(4)]
  have same_p: "pi_product pA = pi_product pB" if "good_product gA = good_product gB"
  proof -
    have "product_name rA = product_name rB" using that A(3) B(3) by simp
    then have "[rA] = [rB]" using fA(1) fB(1) by (simp only:)
    then show ?thesis using fA(2) fB(2) by (metis list.inject)
  qed
  have same_c: "cA = cB" if "good_category jdA gA = good_category jdB gB"
  proof -
    have "category_name cA = category_name cB" using that A(5) B(5) by simp
    then have "[cA] = [cB]" using fA(3) fB(3) by (simp only:)
    then show ?thesis by (rule list.inject[THEN iffD1, THEN conjunct1])
  qed
  have "\<exists>pA pB rA rB cA cB.
            shop_instance d2 sA iA = Some pA \<and> shop_instance d2 sB iB = Some pB \<and>
            product_row d2 pA = Some rA \<and> good_product gA = Some (product_name rA) \<and>
            product_row d2 pB = Some rB \<and> good_product gB = Some (product_name rB) \<and>
            category_row d2 pA = Some cA \<and> good_category jdA gA = Some (category_name cA) \<and>
            category_row d2 pB = Some cB \<and> good_category jdB gB = Some (category_name cB) \<and>
            filter (\<lambda>r. product_name r = product_name rA) (rows (products d2)) = [rA] \<and>
            filter (\<lambda>r. product_name r = product_name rB) (rows (products d2)) = [rB] \<and>
            filter (\<lambda>c. category_name c = category_name cA) (rows (categories d2)) = [cA] \<and>
            filter (\<lambda>c. category_name c = category_name cB) (rows (categories d2)) = [cB] \<and>
            (good_product gA = good_product gB \<longrightarrow> pi_product pA = pi_product pB) \<and>
            (good_category jdA gA = good_category jdB gB \<longrightarrow> cA = cB)"
    using A2 A(3,5) B fA(1,3) fB(1,3) same_p same_c
    by (intro exI[of _ pA] exI[of _ pB] exI[of _ rA] exI[of _ rB] exI[of _ cA] exI[of _ cB] conjI)
       (assumption | rule impI, blast)+
  with nu ge sp lk uA uB show ?thesis by (intro conjI)
qed

text \<open>
  The scenario's shop A imports the ball into the empty store and shop B then imports a
  ball of its own in the category Toys: both listings reference the one product row and
  the one category row.
\<close>

theorem imports_share_global_rows_witness:
  "import_products empty_db 7 ''u@example.org'' ex_payload = (StatusOk 1, ex_db1) \<and>
   import_products ex_db1 9 ''v@example.org'' ex_payload_B =
     (StatusOk 2, snd (import_products ex_db1 9 ''v@example.org'' ex_payload_B)) \<and>
   store_ok empty_db \<and> users_shop ex_db1 7 = Some ex_shop \<and>
   users_shop (snd (import_products ex_db1 9 ''v@example.org'' ex_payload_B)) 9 = Some ex_shop_B \<and>
   shop_id ex_shop \<noteq> shop_id ex_shop_B \<and>
   jd_goods ex_payload = Some ([] @ ex_ball # []) \<and> ps_id ex_ball = Some 10 \<and>
   shop_instance empty_db ex_shop 10 = None \<and>
   jd_goods ex_payload_B = Some ([] @ ex_ball_B # []) \<and> ps_id ex_ball_B = Some 20 \<and>
   shop_instance ex_db1 ex_shop_B 20 = None \<and>
   good_product ex_ball = good_product ex_ball_B \<and>
   good_category ex_payload ex_ball = good_category ex_payload_B ex_ball_B \<and>
   names_unique (snd (import_products ex_db1 9 ''v@example.org'' ex_payload_B)) \<and>
   upserted (snd (import_products ex_db1 9 ''v@example.org'' ex_payload_B)) ex_shop ex_ball \<and>
   upserted (snd (import_products ex_db1 9 ''v@example.org'' ex_payload_B)) ex_shop_B ex_ball_B \<and>
   (\<exists>pA pB cA cB.
      shop_instance (snd (import_products ex_db1 9 ''v@example.org'' ex_payload_B)) ex_shop 10 =
        Some pA \<and>
      shop_instance (snd (import_products ex_db1 9 ''v@example.org'' ex_payload_B)) ex_shop_B 20 =
        Some pB \<and>
      pi_product pA = pi_product pB \<and>
      category_row (snd (import_products ex_db1 9 ''v@example.org'' ex_payload_B)) pA = Some cA \<and>
      category_row (snd (import_products ex_db1 9 ''v@example.org'' ex_payload_B)) pB = Some cB \<and>
      cA = cB)"
proof -
  let ?d2 = "snd (import_products ex_db1 9 ''v@example.org'' ex_payload_B)"
  have stA: "fst (import_products empty_db 7 ''u@example.org'' ex_payload) = StatusOk 1"
    by code_simp
  have runA: "import_products empty_db 7 ''u@example.org'' ex_payload = (StatusOk 1, ex_db1)"
    using stA by (simp add: prod_eq_iff ex_db1_def)
  have stB: "fst (import_products ex_db1 9 ''v@example.org'' ex_payload_B) = StatusOk 2"
    by code_simp
  have runB: "import_products ex_db1 9 ''v@example.org'' ex_payload_B = (StatusOk 2, ?d2)"
    using stB by (simp add: prod_eq_iff)
  have ok: "store_ok empty_db"
    by code_simp
  have shopA: "users_shop ex_db1 7 = Some ex_shop"
    by code_simp
  have shopB: "users_shop ?d2 9 = Some ex_shop_B"
    by code_simp
  have diff: "shop_id ex_shop \<noteq> shop_id ex_shop_B"
    by code_simp
  have gA: "jd_goods ex_payload = Some ([] @ ex_ball # [])" "ps_id ex_ball = Some 10"
           "shop_instance empty_db ex_shop 10 = None"
    by code_simp+
  have gB: "jd_goods ex_payload_B = Some ([] @ ex_ball_B # [])" "ps_id ex_ball_B = Some 20"
           "shop_instance ex_db1 ex_shop_B 20 = None"
    by code_simp+
  have e: "\<forall>h \<in> set []. ps_id h \<noteq> ps_id g" for g :: product_source
    by simp
  have np: "good_product ex_ball = good_product ex_ball_B"
    by code_simp
  have nc: "good_category ex_payload ex_ball = good_category ex_payload_B ex_ball_B"
    by code_simp
  note t = imports_share_global_rows[OF runA runB ok shopA shopB diff
             gA(1,2) e gA(3) gB(1,2) e gB(3) gA(1) e gB(1) e]
  have nu: "names_unique ?d2" using t by (rule conjunct1)
  have uA: "upserted ?d2 ex_shop ex_ball" using t by blast
  have uB: "upserted ?d2 ex_shop_B ex_ball_B" using t by blast
  have ex: "\<exists>pA pB cA cB.
      shop_instance ?d2 ex_shop 10 = Some pA \<and> shop_instance ?d2 ex_shop_B 20 = Some pB \<and>
      pi_product pA = pi_product pB \<and>
      category_row ?d2 pA = Some cA \<and> category_row ?d2 pB = Some cB \<and> cA = cB"
    using t np nc by blast
  show ?thesis
    using runA runB ok shopA shopB diff gA gB np nc nu uA uB ex by (intro conjI)
qed

text \<open>
  The claim fails for a listing that exists already: shop B has imported good 20 as Cube
  and imports it again as Ball, the name of shop A's product. Both runs succeed, shop A's
  listing references the product Ball, and shop B's listing still references the product
  Cube.
\<close>

theorem reimport_keeps_product_counterexample:
  "fst (import_products empty_db 7 ''u@example.org'' ex_payload) = StatusOk 1 \<and>
   fst (import_products ex_db8 9 ''v@example.org'' ex_payload_B) = StatusOk 2 \<and>
   good_product ex_ball = Some ''Ball'' \<and> good_product ex_ball_B = Some ''Ball'' \<and>
   map_option product_name
     (Option.bind
        (shop_instance (snd (import_products ex_db8 9 ''v@example.org'' ex_payload_B)) ex_shop 10)
        (product_row (snd (import_products ex_db8 9 ''v@example.org'' ex_payload_B)))) =
     Some ''Ball'' \<and>
   map_option product_name
     (Option.bind
        (shop_instance (snd (import_products ex_db8 9 ''v@example.org'' ex_payload_B)) ex_shop_B 20)
        (product_row (snd (import_products ex_db8 9 ''v@example.org'' ex_payload_B)))) =
     Some ''Cube''"
  by code_simp

end
